theory Spec2Isabelle
  imports Main "HOL-Library.Word"
begin

unbundle bit_operations_syntax

section \<open>The Loongson 3 SPI controller driver (loongson3\_spi.c)\<close>

text \<open>
  The driver talks to five byte-wide registers through \<^verbatim>\<open>mmio_readb\<close> and
  \<^verbatim>\<open>mmio_writeb\<close>, keeps one static pointer \<^verbatim>\<open>spictrl_base\<close>, and calls a handful
  of services of the surrounding program (\<^verbatim>\<open>extract_programmer_param\<close>, \<^verbatim>\<open>rphysmap\<close>,
  \<^verbatim>\<open>register_shutdown\<close>, \<^verbatim>\<open>register_spi_master\<close>, the message macros). The embedding
  passes the state explicitly, logs every call that leaves the driver in a trace, and
  takes the answers of the outside world from an environment.

  Conventions: a \<^verbatim>\<open>uint8_t\<close> is an \<open>8 word\<close>; a pointer is a natural number with
  \<open>0\<close> for \<^verbatim>\<open>NULL\<close>; the \<^verbatim>\<open>unsigned int\<close> counters are natural numbers (the loop
  counter \<open>i\<close> stays below its bound, so it never wraps); a buffer is the list of the
  bytes allocated for it, and an index outside of it is a fault of the run.
\<close>

type_synonym byte = "8 word"
type_synonym addr = nat

subsection \<open>Register map\<close>

definition LOONGSON64C_SPI_BASE :: nat where "LOONGSON64C_SPI_BASE = 0x1fe00220"
definition LOONGSON64G_SPI_BASE :: nat where "LOONGSON64G_SPI_BASE = 0x1fe001f0"
definition LOONGSON3_SPI_REG_SIZE :: nat where "LOONGSON3_SPI_REG_SIZE = 0x10"

definition SPICTRL_SPCR :: nat where "SPICTRL_SPCR = 0x0"
definition SPCR_MSTR :: byte where "SPCR_MSTR = push_bit 4 1"
definition SPCR_SPE :: byte where "SPCR_SPE = push_bit 6 1"

definition SPICTRL_SPSR :: nat where "SPICTRL_SPSR = 0x1"
definition SPSR_RFEMPTY :: byte where "SPSR_RFEMPTY = push_bit 0 1"

definition SPICTRL_FIFO :: nat where "SPICTRL_FIFO = 0x2"

definition SPICTRL_SFCP :: nat where "SPICTRL_SFCP = 0x4"
definition SFCP_MEMEN :: byte where "SFCP_MEMEN = push_bit 0 1"

definition SPICTRL_SOFTCS :: nat where "SPICTRL_SOFTCS = 0x5"
definition SOFTCS_ASSERT :: byte where "SOFTCS_ASSERT = push_bit 4 0 OR push_bit 0 1"
definition SOFTCS_DESSERT :: byte where "SOFTCS_DESSERT = push_bit 4 1 OR push_bit 0 1"

subsection \<open>State, environment and trace\<close>

datatype message =
    NoCpuSpecified          \<comment> \<open>\<^verbatim>\<open>"No -cpu specified\n"\<close>\<close>
  | InvalidCpuSpecified     \<comment> \<open>\<^verbatim>\<open>"Invalid -cpu specified\n"\<close>\<close>
  | FailedToMapBase         \<comment> \<open>\<^verbatim>\<open>"Failed to map base\n"\<close>\<close>
  | ReadEngineNotEnabled    \<comment> \<open>\<^verbatim>\<open>"Read engine is not enabled, SPI is not system firmware?\n"\<close>\<close>
  | Note64c                 \<comment> \<open>\<^verbatim>\<open>"64c\n"\<close>\<close>
  | Note64g                 \<comment> \<open>\<^verbatim>\<open>"64g\n"\<close>\<close>
  | CmdCounts nat nat       \<comment> \<open>\<^verbatim>\<open>"writecnt: %d, readcnt: %d\n"\<close>\<close>

datatype event =
    MmioRead addr byte          \<comment> \<open>\<^verbatim>\<open>mmio_readb(addr)\<close> and the byte it returned\<close>
  | MmioWrite byte addr         \<comment> \<open>\<^verbatim>\<open>mmio_writeb(val, addr)\<close>\<close>
  | PhysMap string nat nat      \<comment> \<open>\<^verbatim>\<open>rphysmap(descr, phys_addr, len)\<close>\<close>
  | RegisterShutdown            \<comment> \<open>\<^verbatim>\<open>register_shutdown(loongson3_spi_shutdown, NULL)\<close>\<close>
  | RegisterSpiMaster           \<comment> \<open>\<^verbatim>\<open>register_spi_master(&spi_master_loongson3)\<close>\<close>
  | Perr message                \<comment> \<open>\<^verbatim>\<open>msg_perr\<close>\<close>
  | Pwarn message               \<comment> \<open>\<^verbatim>\<open>msg_pwarn\<close>\<close>

text \<open>
  The outside world, fixed for a run: the \<^verbatim>\<open>cpu\<close> programmer parameter (\<open>None\<close> when
  it is absent), the pointer \<^verbatim>\<open>rphysmap\<close> hands back (\<open>0\<close> when mapping fails), the
  value \<^verbatim>\<open>register_shutdown\<close> returns, and what the controller answers: the byte the
  \<open>n\<close>-th read of the Status register sees and the byte the \<open>n\<close>-th read of the FIFO
  register pops. Both answer sequences are arbitrary.
\<close>

record env =
  cpu_param :: "string option"
  mapped :: addr
  register_shutdown_rc :: int
  spsr_seq :: "nat \<Rightarrow> byte"
  fifo_seq :: "nat \<Rightarrow> byte"

record state =
  spictrl_base :: addr            \<comment> \<open>\<^verbatim>\<open>static uint8_t *spictrl_base\<close>\<close>
  mem :: "addr \<Rightarrow> byte"            \<comment> \<open>the bytes behind the storage registers\<close>
  spsr_polls :: nat               \<comment> \<open>reads of Status so far\<close>
  fifo_pops :: nat                \<comment> \<open>reads of FIFO so far\<close>
  trace :: "event list"           \<comment> \<open>the calls that left the driver, oldest first\<close>

definition emit :: "event \<Rightarrow> state \<Rightarrow> state" where
  "emit ev s = s\<lparr>trace := trace s @ [ev]\<rparr>"

text \<open>
  Modelled from the spec: \<^verbatim>\<open>mmio_readb\<close> and \<^verbatim>\<open>mmio_writeb\<close> (hwaccess, not part of
  this file) and the register block of section 4.1. Status and FIFO, at offsets 1 and 2
  of the mapped block, are volatile: a read of Status takes the next answer of the
  controller, a read of FIFO pops the next byte, a write to FIFO pushes a byte (it is
  kept in the trace). Every other address is storage: a read returns the byte written last.
  Neither access can fail: the accessors have no error result.
\<close>

definition mmio_readb :: "env \<Rightarrow> addr \<Rightarrow> state \<Rightarrow> byte \<times> state" where
  "mmio_readb e a s =
     (if a = mapped e + SPICTRL_SPSR then
        (spsr_seq e (spsr_polls s),
         emit (MmioRead a (spsr_seq e (spsr_polls s))) (s\<lparr>spsr_polls := Suc (spsr_polls s)\<rparr>))
      else if a = mapped e + SPICTRL_FIFO then
        (fifo_seq e (fifo_pops s),
         emit (MmioRead a (fifo_seq e (fifo_pops s))) (s\<lparr>fifo_pops := Suc (fifo_pops s)\<rparr>))
      else (mem s a, emit (MmioRead a (mem s a)) s))"

definition mmio_writeb :: "env \<Rightarrow> byte \<Rightarrow> addr \<Rightarrow> state \<Rightarrow> state" where
  "mmio_writeb e v a s =
     (if a = mapped e + SPICTRL_SPSR \<or> a = mapped e + SPICTRL_FIFO then emit (MmioWrite v a) s
      else emit (MmioWrite v a) (s\<lparr>mem := (mem s)(a := v)\<rparr>))"

text \<open>
  Modelled from the spec: \<^verbatim>\<open>rphysmap\<close> (physmap, not part of this file), the mapping
  service of section 6: it returns a handle or null and touches no register.
\<close>

definition rphysmap :: "env \<Rightarrow> string \<Rightarrow> nat \<Rightarrow> nat \<Rightarrow> state \<Rightarrow> addr \<times> state" where
  "rphysmap e descr phys len s = (mapped e, emit (PhysMap descr phys len) s)"

text \<open>
  Modelled from the spec: \<^verbatim>\<open>register_shutdown\<close> (flashrom core, not part of this
  file), the process-lifecycle manager of section 6; registration can fail.
\<close>

definition register_shutdown :: "env \<Rightarrow> state \<Rightarrow> int \<times> state" where
  "register_shutdown e s = (register_shutdown_rc e, emit RegisterShutdown s)"

subsection \<open>Platform identifiers\<close>

definition cpu_is_loongson64c :: "string \<Rightarrow> int" where
  "cpu_is_loongson64c cpu =
     (if cpu = ''3b1500'' then 1
      else if cpu = ''3a2000'' then 1
      else if cpu = ''3b2000'' then 1
      else if cpu = ''3a3000'' then 1
      else if cpu = ''3b3000'' then 1
      else 0)"

definition cpu_is_loongson64g :: "string \<Rightarrow> int" where
  "cpu_is_loongson64g cpu =
     (if cpu = ''3a4000'' then 1
      else if cpu = ''3b4000'' then 1
      else 0)"

subsection \<open>Bring-up\<close>

text \<open>
  Lines 167--168: \<^verbatim>\<open>while (!(mmio_readb(base + SPSR) & SPSR_RFEMPTY)) mmio_readb(base + FIFO);\<close>
  The loop has no bound; a run that never leaves it has no result (\<open>None\<close>).
\<close>

partial_function (option) drain_read_fifo :: "env \<Rightarrow> state \<Rightarrow> state option" where
  "drain_read_fifo e s =
     (let (v, s1) = mmio_readb e (spictrl_base s + SPICTRL_SPSR) s in
      if v AND SPSR_RFEMPTY = 0
      then drain_read_fifo e (snd (mmio_readb e (spictrl_base s1 + SPICTRL_FIFO) s1))
      else Some s1)"

declare drain_read_fifo.simps [code]

text \<open>
  Lines 138--171: the part of \<^verbatim>\<open>loongson3_spi_init\<close> behind the two branches that map
  the register block. \<^verbatim>\<open>free(cpu)\<close> has no counterpart: the parameter is a value.
\<close>

definition init_mapped :: "env \<Rightarrow> state \<Rightarrow> (int \<times> state) option" where
  "init_mapped e s =
     (if spictrl_base s = 0 then Some (1, emit (Perr FailedToMapBase) s)
      else
        let (reg, s1) = mmio_readb e (spictrl_base s + SPICTRL_SFCP) s;
            s2 = (if reg AND SFCP_MEMEN = 0 then emit (Pwarn ReadEngineNotEnabled) s1 else s1);
            (rc, s3) = register_shutdown e s2
        in if rc \<noteq> 0 then Some (1, s3)
           else
             let s4 = mmio_writeb e SOFTCS_DESSERT (spictrl_base s3 + SPICTRL_SOFTCS) s3;
                 (reg, s5) = mmio_readb e (spictrl_base s4 + SPICTRL_SPCR) s4;
                 reg = reg OR (SPCR_MSTR OR SPCR_SPE);
                 s6 = mmio_writeb e reg (spictrl_base s5 + SPICTRL_SPCR) s5;
                 (reg, s7) = mmio_readb e (spictrl_base s6 + SPICTRL_SFCP) s6;
                 reg = reg AND NOT SFCP_MEMEN;
                 s8 = mmio_writeb e reg (spictrl_base s7 + SPICTRL_SFCP) s7
             in case drain_read_fifo e s8 of
                  None \<Rightarrow> None
                | Some s9 \<Rightarrow> Some (0, emit RegisterSpiMaster s9))"

text \<open>Lines 108--136: the \<^verbatim>\<open>cpu\<close> parameter selects the physical base of the block.\<close>

definition loongson3_spi_init :: "env \<Rightarrow> state \<Rightarrow> (int \<times> state) option" where
  "loongson3_spi_init e s =
     (case cpu_param e of
        None \<Rightarrow> Some (1, emit (Perr NoCpuSpecified) s)
      | Some cpu \<Rightarrow>
          if cpu_is_loongson64c cpu \<noteq> 0 then
            let (p, s1) = rphysmap e ''Loongson64C SPICTRL'' LOONGSON64C_SPI_BASE
                            LOONGSON3_SPI_REG_SIZE s
            in init_mapped e (emit (Pwarn Note64c) (s1\<lparr>spictrl_base := p\<rparr>))
          else if cpu_is_loongson64g cpu \<noteq> 0 then
            let (p, s1) = rphysmap e ''Loongson64G SPICTRL'' LOONGSON64G_SPI_BASE
                            LOONGSON3_SPI_REG_SIZE s
            in init_mapped e (emit (Pwarn Note64g) (s1\<lparr>spictrl_base := p\<rparr>))
          else Some (1, emit (Perr InvalidCpuSpecified) s))"

subsection \<open>Tear-down\<close>

text \<open>
  Lines 174--189. The block runs when \<^verbatim>\<open>!spictrl_base\<close> holds, that is when the handle
  is null; the \<^verbatim>\<open>data\<close> argument is not used.
\<close>

definition loongson3_spi_shutdown :: "env \<Rightarrow> state \<Rightarrow> int \<times> state" where
  "loongson3_spi_shutdown e s =
     (if spictrl_base s = 0 then
        let s1 = mmio_writeb e 0x0 (spictrl_base s + SPICTRL_SOFTCS) s;
            (reg, s2) = mmio_readb e (spictrl_base s1 + SPICTRL_SFCP) s1;
            reg = reg OR SFCP_MEMEN;
            s3 = mmio_writeb e reg (spictrl_base s2 + SPICTRL_SFCP) s2
        in (0, s3)
      else (0, s))"

subsection \<open>Transactions\<close>

text \<open>
  A buffer index outside the allocated bytes is undefined behaviour in C; the run stops
  there with a fault that names the access and carries the state reached.
\<close>

datatype fault =
    WritePhaseWritearr nat   \<comment> \<open>line 203: \<^verbatim>\<open>writearr[i]\<close> outside the write buffer\<close>
  | ReadPhaseWritearr nat    \<comment> \<open>line 212: \<^verbatim>\<open>writearr[i]\<close> outside the write buffer\<close>
  | ReadPhaseReadarr nat     \<comment> \<open>line 217: \<^verbatim>\<open>readarr[i]\<close> outside the read buffer\<close>

text \<open>
  Lines 206 and 215: \<^verbatim>\<open>while (mmio_readb(base + SPSR) & SPSR_RFEMPTY);\<close>
  Again without a bound: \<open>None\<close> is the run that polls for ever.
\<close>

partial_function (option) wait_read_fifo :: "env \<Rightarrow> state \<Rightarrow> state option" where
  "wait_read_fifo e s =
     (let (v, s1) = mmio_readb e (spictrl_base s + SPICTRL_SPSR) s in
      if v AND SPSR_RFEMPTY \<noteq> 0 then wait_read_fifo e s1 else Some s1)"

declare wait_read_fifo.simps [code]

text \<open>Lines 202--209, from counter value \<open>i\<close> on.\<close>

function write_phase ::
  "env \<Rightarrow> nat \<Rightarrow> nat \<Rightarrow> byte list \<Rightarrow> state \<Rightarrow> (fault \<times> state + state) option" where
  "write_phase e i writecnt writearr s =
     (if i < writecnt then
        if i < length writearr then
          case wait_read_fifo e (mmio_writeb e (writearr ! i) (spictrl_base s + SPICTRL_FIFO) s) of
            None \<Rightarrow> None
          | Some s1 \<Rightarrow>
              write_phase e (Suc i) writecnt writearr
                (snd (mmio_readb e (spictrl_base s1 + SPICTRL_FIFO) s1))
        else Some (Inl (WritePhaseWritearr i, s))
      else Some (Inr s))"
  by pat_completeness auto
termination
  by (relation "measure (\<lambda>(e, i, writecnt, writearr, s). writecnt - i)") auto

text \<open>Lines 211--218, from counter value \<open>i\<close> on; \<open>readarr\<close> is the caller's result buffer.\<close>

function read_phase ::
  "env \<Rightarrow> nat \<Rightarrow> nat \<Rightarrow> byte list \<Rightarrow> byte list \<Rightarrow> state
     \<Rightarrow> (fault \<times> state + byte list \<times> state) option" where
  "read_phase e i readcnt writearr readarr s =
     (if i < readcnt then
        if i < length writearr then
          case wait_read_fifo e (mmio_writeb e (writearr ! i) (spictrl_base s + SPICTRL_FIFO) s) of
            None \<Rightarrow> None
          | Some s1 \<Rightarrow>
              let (v, s2) = mmio_readb e (spictrl_base s1 + SPICTRL_FIFO) s1 in
              if i < length readarr
              then read_phase e (Suc i) readcnt writearr (readarr[i := v]) s2
              else Some (Inl (ReadPhaseReadarr i, s2))
        else Some (Inl (ReadPhaseWritearr i, s))
      else Some (Inr (readarr, s)))"
  by pat_completeness auto
termination
  by (relation "measure (\<lambda>(e, i, readcnt, writearr, readarr, s). readcnt - i)") auto

declare write_phase.simps [simp del]
declare read_phase.simps [simp del]

text \<open>
  Lines 191--223. The \<^verbatim>\<open>flash\<close> argument is not used. The result is the returned
  \<^verbatim>\<open>int\<close>, the read buffer and the state.
\<close>

definition loongson3_spi_send_command ::
  "env \<Rightarrow> nat \<Rightarrow> nat \<Rightarrow> byte list \<Rightarrow> byte list \<Rightarrow> state
     \<Rightarrow> (fault \<times> state + int \<times> byte list \<times> state) option" where
  "loongson3_spi_send_command e writecnt readcnt writearr readarr s =
     (let s0 = emit (Pwarn (CmdCounts writecnt readcnt)) s;
          s1 = mmio_writeb e SOFTCS_ASSERT (spictrl_base s0 + SPICTRL_SOFTCS) s0
      in case write_phase e 0 writecnt writearr s1 of
           None \<Rightarrow> None
         | Some (Inl f) \<Rightarrow> Some (Inl f)
         | Some (Inr s2) \<Rightarrow>
             (case read_phase e 0 readcnt writearr readarr s2 of
                None \<Rightarrow> None
              | Some (Inl f) \<Rightarrow> Some (Inl f)
              | Some (Inr (readarr', s3)) \<Rightarrow>
                  Some (Inr (0, readarr',
                    mmio_writeb e SOFTCS_DESSERT (spictrl_base s3 + SPICTRL_SOFTCS) s3))))"

section \<open>Reading a trace\<close>

text \<open>
  What a call added to the trace, the address of a register access, and the
  recognisers the properties below are stated with.
\<close>

definition new_events :: "state \<Rightarrow> state \<Rightarrow> event list" where
  "new_events s s' = drop (length (trace s)) (trace s')"

fun access_addr :: "event \<Rightarrow> addr option" where
  "access_addr (MmioRead a v) = Some a"
| "access_addr (MmioWrite v a) = Some a"
| "access_addr _ = None"

fun is_read_at :: "addr \<Rightarrow> event \<Rightarrow> bool" where
  "is_read_at a (MmioRead a' v) = (a' = a)"
| "is_read_at a _ = False"

text \<open>
  An access lies in the register block of handle \<open>b\<close> when its address is \<open>b\<close> plus one of
  the five register offsets (0x0, 0x1, 0x2, 0x4, 0x5); calls that touch no register pass.
\<close>

definition in_block :: "addr \<Rightarrow> event \<Rightarrow> bool" where
  "in_block b ev =
     (case access_addr ev of
        None \<Rightarrow> True
      | Some a \<Rightarrow> a = b + SPICTRL_SPCR \<or> a = b + SPICTRL_SPSR \<or> a = b + SPICTRL_FIFO \<or>
                  a = b + SPICTRL_SFCP \<or> a = b + SPICTRL_SOFTCS)"

definition block_run :: "state \<Rightarrow> state \<Rightarrow> bool" where
  "block_run s s' =
     (spictrl_base s' = spictrl_base s \<and> trace s' = trace s @ new_events s s' \<and>
      list_all (in_block (spictrl_base s)) (new_events s s'))"

text \<open>The bytes written to the FIFO register, in order.\<close>

fun fifo_pushes :: "addr \<Rightarrow> event list \<Rightarrow> byte list" where
  "fifo_pushes b [] = []"
| "fifo_pushes b (MmioWrite v a # evs) =
     (if a = b + SPICTRL_FIFO then v # fifo_pushes b evs else fifo_pushes b evs)"
| "fifo_pushes b (ev # evs) = fifo_pushes b evs"

text \<open>
  The byte-at-a-time protocol of a transaction, read off a trace: a write to FIFO, then
  reads of Status that show the read FIFO empty, then one read of Status that shows it
  non-empty, then a read of FIFO. The result pairs each pushed byte with the byte popped
  for it; any other sequence of events is rejected.
\<close>

datatype xfer_mode = Idle | Busy byte | Avail byte

fun xfers :: "addr \<Rightarrow> xfer_mode \<Rightarrow> event list \<Rightarrow> (byte \<times> byte) list option" where
  "xfers b Idle [] = Some []"
| "xfers b Idle (MmioWrite v a # evs) =
     (if a = b + SPICTRL_FIFO then xfers b (Busy v) evs else None)"
| "xfers b (Busy v) (MmioRead a r # evs) =
     (if a = b + SPICTRL_SPSR
      then (if r AND SPSR_RFEMPTY \<noteq> 0 then xfers b (Busy v) evs else xfers b (Avail v) evs)
      else None)"
| "xfers b (Avail v) (MmioRead a r # evs) =
     (if a = b + SPICTRL_FIFO then map_option ((#) (v, r)) (xfers b Idle evs) else None)"
| "xfers b m evs = None"

text \<open>
  The accesses of the two polling loops when the controller answers as expected: a wait
  that sees \<open>k\<close> busy polls and then a ready one, and a drain that pops \<open>k\<close> bytes.
\<close>

fun wait_events :: "env \<Rightarrow> nat \<Rightarrow> nat \<Rightarrow> event list" where
  "wait_events e p 0 = [MmioRead (mapped e + SPICTRL_SPSR) (spsr_seq e p)]"
| "wait_events e p (Suc k) =
     MmioRead (mapped e + SPICTRL_SPSR) (spsr_seq e p) # wait_events e (Suc p) k"

fun drain_events :: "env \<Rightarrow> nat \<Rightarrow> nat \<Rightarrow> nat \<Rightarrow> event list" where
  "drain_events e p q 0 = [MmioRead (mapped e + SPICTRL_SPSR) (spsr_seq e p)]"
| "drain_events e p q (Suc k) =
     MmioRead (mapped e + SPICTRL_SPSR) (spsr_seq e p)
     # MmioRead (mapped e + SPICTRL_FIFO) (fifo_seq e q)
     # drain_events e (Suc p) (Suc q) k"

text \<open>
  The bytes a completed transaction pushed during its read phase: the pushes that follow
  the \<open>writecnt\<close> pushes of the write phase.
\<close>

definition read_phase_pushes ::
  "env \<Rightarrow> nat \<Rightarrow> nat \<Rightarrow> byte list \<Rightarrow> byte list \<Rightarrow> state \<Rightarrow> byte list option" where
  "read_phase_pushes e writecnt readcnt writearr readarr s =
     (case loongson3_spi_send_command e writecnt readcnt writearr readarr s of
        Some (Inr (rc, ra, s')) \<Rightarrow>
          Some (drop writecnt (fifo_pushes (spictrl_base s) (new_events s s')))
      | _ \<Rightarrow> None)"

text \<open>
  The read-phase pushes as section 4.3, step 3 and section 8 of the specification word
  them: iteration \<open>i\<close> pushes the byte at index \<open>writecnt + i\<close> of the write buffer
  (\<open>None\<close> where the buffer has no such byte).
\<close>

definition spec_read_phase_pushes :: "nat \<Rightarrow> nat \<Rightarrow> byte list \<Rightarrow> byte option list" where
  "spec_read_phase_pushes writecnt readcnt writearr =
     map (\<lambda>i. if writecnt + i < length writearr then Some (writearr ! (writecnt + i)) else None)
       [0..<readcnt]"

subsection \<open>Sample inputs\<close>

text \<open>
  A 64C machine whose block is mapped at 0x1000: two stale bytes sit in the read FIFO at
  boot (the third poll of Status reports it empty), and every later exchange is ready at
  its first poll. \<open>demo_boot\<close> is the state before bring-up, \<open>demo_up\<close> a state with the
  handle set.
\<close>

definition demo_env :: env where
  "demo_env = \<lparr>cpu_param = Some ''3a3000'', mapped = 0x1000, register_shutdown_rc = 0,
               spsr_seq = (\<lambda>n. if n = 2 then 1 else 0), fifo_seq = (\<lambda>n. 0x40 + of_nat n)\<rparr>"

definition demo_boot :: state where
  "demo_boot = \<lparr>spictrl_base = 0, mem = (\<lambda>a. 0xA5), spsr_polls = 0, fifo_pops = 0, trace = []\<rparr>"

definition demo_up :: state where
  "demo_up = \<lparr>spictrl_base = 0x1000, mem = (\<lambda>a. 0xA5), spsr_polls = 3, fifo_pops = 2,
              trace = []\<rparr>"

section \<open>Properties\<close>

subsection \<open>Registers and accessors\<close>

lemmas offset_defs =
  SPICTRL_SPCR_def SPICTRL_SPSR_def SPICTRL_FIFO_def SPICTRL_SFCP_def SPICTRL_SOFTCS_def

lemma bit_consts:
  "SPCR_MSTR = 0x10" "SPCR_SPE = 0x40" "SPSR_RFEMPTY = 1" "SFCP_MEMEN = 1"
  "SOFTCS_ASSERT = 0x01" "SOFTCS_DESSERT = 0x11"
  by (simp_all add: SPCR_MSTR_def SPCR_SPE_def SPSR_RFEMPTY_def SFCP_MEMEN_def
      SOFTCS_ASSERT_def SOFTCS_DESSERT_def)

lemma emit_fields [simp]:
  "spictrl_base (emit ev s) = spictrl_base s"
  "mem (emit ev s) = mem s"
  "spsr_polls (emit ev s) = spsr_polls s"
  "fifo_pops (emit ev s) = fifo_pops s"
  "trace (emit ev s) = trace s @ [ev]"
  by (simp_all add: emit_def)

lemma mmio_writeb_fields [simp]:
  "spictrl_base (mmio_writeb e v a s) = spictrl_base s"
  "spsr_polls (mmio_writeb e v a s) = spsr_polls s"
  "fifo_pops (mmio_writeb e v a s) = fifo_pops s"
  "trace (mmio_writeb e v a s) = trace s @ [MmioWrite v a]"
  by (simp_all add: mmio_writeb_def)

lemma mmio_writeb_mem:
  "mem (mmio_writeb e v a s) =
     (if a = mapped e + SPICTRL_SPSR \<or> a = mapped e + SPICTRL_FIFO then mem s
      else (mem s)(a := v))"
  by (simp add: mmio_writeb_def)

lemma mmio_readb_fields [simp]:
  "spictrl_base (snd (mmio_readb e a s)) = spictrl_base s"
  "mem (snd (mmio_readb e a s)) = mem s"
  "trace (snd (mmio_readb e a s)) = trace s @ [MmioRead a (fst (mmio_readb e a s))]"
  by (simp_all add: mmio_readb_def)

lemma mmio_readb_spsr [simp]:
  "fst (mmio_readb e (mapped e + SPICTRL_SPSR) s) = spsr_seq e (spsr_polls s)"
  "spsr_polls (snd (mmio_readb e (mapped e + SPICTRL_SPSR) s)) = Suc (spsr_polls s)"
  "fifo_pops (snd (mmio_readb e (mapped e + SPICTRL_SPSR) s)) = fifo_pops s"
  by (simp_all add: mmio_readb_def offset_defs)

lemma mmio_readb_fifo [simp]:
  "fst (mmio_readb e (mapped e + SPICTRL_FIFO) s) = fifo_seq e (fifo_pops s)"
  "spsr_polls (snd (mmio_readb e (mapped e + SPICTRL_FIFO) s)) = spsr_polls s"
  "fifo_pops (snd (mmio_readb e (mapped e + SPICTRL_FIFO) s)) = Suc (fifo_pops s)"
  by (simp_all add: mmio_readb_def offset_defs)

text \<open>One round of the drain loop, and its exit.\<close>

lemma drain_read_fifo_exit:
  assumes "spictrl_base s = mapped e"
    and "spsr_seq e (spsr_polls s) AND SPSR_RFEMPTY \<noteq> 0"
  shows "drain_read_fifo e s = Some (snd (mmio_readb e (mapped e + SPICTRL_SPSR) s))"
  using assms by (subst drain_read_fifo.simps) (simp add: case_prod_beta)

lemma drain_read_fifo_round:
  assumes "spictrl_base s = mapped e"
    and "spsr_seq e (spsr_polls s) AND SPSR_RFEMPTY = 0"
  shows "drain_read_fifo e s =
           drain_read_fifo e (snd (mmio_readb e (mapped e + SPICTRL_FIFO)
             (snd (mmio_readb e (mapped e + SPICTRL_SPSR) s))))"
  using assms by (subst drain_read_fifo.simps) (simp add: case_prod_beta)

lemma drain_read_fifo_closed:
  assumes "spictrl_base s = mapped e"
    and "\<forall>j<K. spsr_seq e (spsr_polls s + j) AND SPSR_RFEMPTY = 0"
    and "spsr_seq e (spsr_polls s + K) AND SPSR_RFEMPTY \<noteq> 0"
  shows "drain_read_fifo e s =
           Some (s\<lparr>spsr_polls := spsr_polls s + Suc K, fifo_pops := fifo_pops s + K,
                   trace := trace s @ drain_events e (spsr_polls s) (fifo_pops s) K\<rparr>)"
  using assms
proof (induction K arbitrary: s)
  case 0
  then show ?case
    by (simp add: drain_read_fifo_exit)
next
  case (Suc K)
  let ?s1 = "snd (mmio_readb e (mapped e + SPICTRL_FIFO)
               (snd (mmio_readb e (mapped e + SPICTRL_SPSR) s)))"
  have first: "spsr_seq e (spsr_polls s) AND SPSR_RFEMPTY = 0"
    using Suc.prems(2) by (metis add.right_neutral zero_less_Suc)
  have base1: "spictrl_base ?s1 = mapped e"
    using Suc.prems(1) by simp
  have polls1: "spsr_polls ?s1 = Suc (spsr_polls s)" and pops1: "fifo_pops ?s1 = Suc (fifo_pops s)"
    by simp_all
  have busy1: "\<forall>j<K. spsr_seq e (spsr_polls ?s1 + j) AND SPSR_RFEMPTY = 0"
    using Suc.prems(2) by (simp add: polls1) (metis Suc_less_eq add_Suc_right)
  have stop1: "spsr_seq e (spsr_polls ?s1 + K) AND SPSR_RFEMPTY \<noteq> 0"
    using Suc.prems(3) by (simp add: polls1)
  have "drain_read_fifo e s = drain_read_fifo e ?s1"
    using Suc.prems(1) first by (rule drain_read_fifo_round)
  also have "\<dots> = Some (?s1\<lparr>spsr_polls := spsr_polls ?s1 + Suc K,
                 fifo_pops := fifo_pops ?s1 + K,
                 trace := trace ?s1 @ drain_events e (spsr_polls ?s1) (fifo_pops ?s1) K\<rparr>)"
    using base1 busy1 stop1 by (rule Suc.IH)
  also have "\<dots> = Some (s\<lparr>spsr_polls := spsr_polls s + Suc (Suc K),
                 fifo_pops := fifo_pops s + Suc K,
                 trace := trace s @ drain_events e (spsr_polls s) (fifo_pops s) (Suc K)\<rparr>)"
    by (simp add: polls1 pops1)
  finally show ?case .
qed

subsection \<open>Waiting for the read FIFO\<close>

lemma wait_read_fifo_exit:
  assumes "spictrl_base s = mapped e"
    and "spsr_seq e (spsr_polls s) AND SPSR_RFEMPTY = 0"
  shows "wait_read_fifo e s = Some (snd (mmio_readb e (mapped e + SPICTRL_SPSR) s))"
  using assms by (subst wait_read_fifo.simps) (simp add: case_prod_beta)

lemma wait_read_fifo_round:
  assumes "spictrl_base s = mapped e"
    and "spsr_seq e (spsr_polls s) AND SPSR_RFEMPTY \<noteq> 0"
  shows "wait_read_fifo e s = wait_read_fifo e (snd (mmio_readb e (mapped e + SPICTRL_SPSR) s))"
  using assms by (subst wait_read_fifo.simps) (simp add: case_prod_beta)

lemma wait_read_fifo_closed:
  assumes "spictrl_base s = mapped e"
    and "\<forall>j<k. spsr_seq e (spsr_polls s + j) AND SPSR_RFEMPTY \<noteq> 0"
    and "spsr_seq e (spsr_polls s + k) AND SPSR_RFEMPTY = 0"
  shows "wait_read_fifo e s =
           Some (s\<lparr>spsr_polls := spsr_polls s + Suc k,
                   trace := trace s @ wait_events e (spsr_polls s) k\<rparr>)"
  using assms
proof (induction k arbitrary: s)
  case 0
  then show ?case by (simp add: wait_read_fifo_exit)
next
  case (Suc k)
  let ?s1 = "snd (mmio_readb e (mapped e + SPICTRL_SPSR) s)"
  have first: "spsr_seq e (spsr_polls s) AND SPSR_RFEMPTY \<noteq> 0"
    using Suc.prems(2) by (metis add.right_neutral zero_less_Suc)
  have base1: "spictrl_base ?s1 = mapped e"
    using Suc.prems(1) by simp
  have polls1: "spsr_polls ?s1 = Suc (spsr_polls s)"
    by simp
  have busy1: "\<forall>j<k. spsr_seq e (spsr_polls ?s1 + j) AND SPSR_RFEMPTY \<noteq> 0"
    using Suc.prems(2) by (simp add: polls1) (metis Suc_less_eq add_Suc_right)
  have stop1: "spsr_seq e (spsr_polls ?s1 + k) AND SPSR_RFEMPTY = 0"
    using Suc.prems(3) by (simp add: polls1)
  have "wait_read_fifo e s = wait_read_fifo e ?s1"
    using Suc.prems(1) first by (rule wait_read_fifo_round)
  also have "\<dots> = Some (?s1\<lparr>spsr_polls := spsr_polls ?s1 + Suc k,
                 trace := trace ?s1 @ wait_events e (spsr_polls ?s1) k\<rparr>)"
    using base1 busy1 stop1 by (rule Suc.IH)
  also have "\<dots> = Some (s\<lparr>spsr_polls := spsr_polls s + Suc (Suc k),
                 trace := trace s @ wait_events e (spsr_polls s) (Suc k)\<rparr>)"
    by (simp add: polls1)
  finally show ?case .
qed

text \<open>The parser walks over the polls of one wait.\<close>

lemma xfers_wait_events:
  assumes "\<forall>j<k. spsr_seq e (p + j) AND SPSR_RFEMPTY \<noteq> 0"
    and "spsr_seq e (p + k) AND SPSR_RFEMPTY = 0"
  shows "xfers (mapped e) (Busy v) (wait_events e p k @ rest) = xfers (mapped e) (Avail v) rest"
  using assms
proof (induction k arbitrary: p)
  case 0
  then show ?case by simp
next
  case (Suc k)
  have first: "spsr_seq e p AND SPSR_RFEMPTY \<noteq> 0"
    using Suc.prems(1) by (metis add.right_neutral zero_less_Suc)
  have busy1: "\<forall>j<k. spsr_seq e (Suc p + j) AND SPSR_RFEMPTY \<noteq> 0"
    using Suc.prems(1) by simp (metis Suc_less_eq add_Suc_right)
  have stop1: "spsr_seq e (Suc p + k) AND SPSR_RFEMPTY = 0"
    using Suc.prems(2) by simp
  show ?case
    using first Suc.IH [OF busy1 stop1] by simp
qed

lemma first_ready:
  fixes p :: nat
  assumes "\<exists>k. P (p + k)"
  obtains k where "P (p + k)" and "\<forall>j<k. \<not> P (p + j)"
proof -
  from assms obtain k0 where k0: "P (p + k0)" ..
  define k where "k = (LEAST k. P (p + k))"
  have "P (p + k)" unfolding k_def using k0 by (rule LeastI [where P = "\<lambda>k. P (p + k)"])
  moreover have "\<forall>j<k. \<not> P (p + j)"
    unfolding k_def using not_less_Least by blast
  ultimately show ?thesis using that by blast
qed

lemma xfers_append:
  "xfers b m evs = Some ps \<Longrightarrow>
     xfers b m (evs @ evs') = map_option ((@) ps) (xfers b Idle evs')"
proof (induction b m evs arbitrary: ps rule: xfers.induct)
  case (1 b)
  then show ?case by (simp add: option.map_ident)
next
  case (4 b v a r evs)
  then show ?case
    by (cases "xfers b Idle evs'") (auto split: if_splits)
qed (auto split: if_splits)

lemma xfers_pushes:
  "xfers b m evs = Some ps \<Longrightarrow>
     (case m of Idle \<Rightarrow> [] | Busy v \<Rightarrow> [v] | Avail v \<Rightarrow> [v]) @ fifo_pushes b evs = map fst ps"
proof (induction b m evs arbitrary: ps rule: xfers.induct)
  case (2 b v a evs)
  then show ?case by (auto split: if_splits)
next
  case (3 b v a r evs)
  then show ?case by (auto split: if_splits)
next
  case (4 b v a r evs)
  then show ?case by (auto split: if_splits)
qed simp_all

lemma fifo_pushes_append [simp]:
  "fifo_pushes b (evs @ evs') = fifo_pushes b evs @ fifo_pushes b evs'"
  by (induction b evs rule: fifo_pushes.induct) simp_all

lemma demo_ready: "\<forall>n. \<exists>k. spsr_seq demo_env (n + k) AND SPSR_RFEMPTY = 0"
proof
  fix n
  have "spsr_seq demo_env (n + 3) AND SPSR_RFEMPTY = 0"
    by (simp add: demo_env_def)
  then show "\<exists>k. spsr_seq demo_env (n + k) AND SPSR_RFEMPTY = 0" ..
qed

lemma demo_up_base: "spictrl_base demo_up = mapped demo_env"
  by (simp add: demo_up_def demo_env_def)

lemma word_bits:
  fixes x m :: byte
  shows "(x OR m) AND NOT m = x AND NOT m" "(x AND NOT m) AND m = 0"
    "(x AND NOT m) AND NOT m = x AND NOT m" "(x OR (a OR b)) AND a = a" "(x OR (a OR b)) AND b = b"
  by (auto simp: bit_eq_iff bit_and_iff bit_or_iff bit_not_iff)

subsection \<open>The two phases of a transaction\<close>

lemma exchange_step:
  assumes base: "spictrl_base s = mapped e"
    and ready: "\<forall>n. \<exists>k. spsr_seq e (n + k) AND SPSR_RFEMPTY = 0"
  obtains s1 evs where
    "wait_read_fifo e (mmio_writeb e v (spictrl_base s + SPICTRL_FIFO) s) = Some s1"
    "spictrl_base (snd (mmio_readb e (spictrl_base s1 + SPICTRL_FIFO) s1)) = mapped e"
    "mem (snd (mmio_readb e (spictrl_base s1 + SPICTRL_FIFO) s1)) = mem s"
    "fifo_pops (snd (mmio_readb e (spictrl_base s1 + SPICTRL_FIFO) s1)) = Suc (fifo_pops s)"
    "fst (mmio_readb e (spictrl_base s1 + SPICTRL_FIFO) s1) = fifo_seq e (fifo_pops s)"
    "trace (snd (mmio_readb e (spictrl_base s1 + SPICTRL_FIFO) s1)) = trace s @ evs"
    "\<And>rest. xfers (mapped e) Idle (evs @ rest) =
       map_option ((#) (v, fifo_seq e (fifo_pops s))) (xfers (mapped e) Idle rest)"
proof -
  let ?sw = "mmio_writeb e v (spictrl_base s + SPICTRL_FIFO) s"
  let ?p = "spsr_polls s"
  have "\<exists>k. spsr_seq e (?p + k) AND SPSR_RFEMPTY = 0"
    using ready by blast
  then obtain k where stop: "spsr_seq e (?p + k) AND SPSR_RFEMPTY = 0"
    and busy: "\<forall>j<k. spsr_seq e (?p + j) AND SPSR_RFEMPTY \<noteq> 0"
    by (rule first_ready [where P = "\<lambda>m. spsr_seq e m AND SPSR_RFEMPTY = 0"])
  let ?s1 = "?sw\<lparr>spsr_polls := spsr_polls ?sw + Suc k,
                   trace := trace ?sw @ wait_events e (spsr_polls ?sw) k\<rparr>"
  let ?evs = "MmioWrite v (mapped e + SPICTRL_FIFO) # wait_events e ?p k
                @ [MmioRead (mapped e + SPICTRL_FIFO) (fifo_seq e (fifo_pops s))]"
  have w: "wait_read_fifo e ?sw = Some ?s1"
    by (rule wait_read_fifo_closed) (use base busy stop in simp_all)
  have b1: "spictrl_base ?s1 = mapped e"
    using base by simp
  have m1: "mem ?s1 = mem s"
    using base by (simp add: mmio_writeb_mem)
  have q1: "fifo_pops ?s1 = fifo_pops s"
    by simp
  have t1: "trace ?s1 = trace s @ MmioWrite v (mapped e + SPICTRL_FIFO) # wait_events e ?p k"
    using base by simp
  have x: "xfers (mapped e) Idle (?evs @ rest) =
             map_option ((#) (v, fifo_seq e (fifo_pops s))) (xfers (mapped e) Idle rest)" for rest
    using xfers_wait_events [OF busy stop, of v
        "MmioRead (mapped e + SPICTRL_FIFO) (fifo_seq e (fifo_pops s)) # rest"]
    by simp
  show ?thesis
  proof (rule that [of ?s1 ?evs])
    show "wait_read_fifo e ?sw = Some ?s1" by (rule w)
    show "spictrl_base (snd (mmio_readb e (spictrl_base ?s1 + SPICTRL_FIFO) ?s1)) = mapped e"
      using b1 by simp
    show "mem (snd (mmio_readb e (spictrl_base ?s1 + SPICTRL_FIFO) ?s1)) = mem s"
      using m1 by simp
    show "fifo_pops (snd (mmio_readb e (spictrl_base ?s1 + SPICTRL_FIFO) ?s1)) = Suc (fifo_pops s)"
      unfolding b1 by (simp only: mmio_readb_fifo q1)
    show "fst (mmio_readb e (spictrl_base ?s1 + SPICTRL_FIFO) ?s1) = fifo_seq e (fifo_pops s)"
      unfolding b1 by (simp only: mmio_readb_fifo q1)
    show "trace (snd (mmio_readb e (spictrl_base ?s1 + SPICTRL_FIFO) ?s1)) = trace s @ ?evs"
      unfolding b1 by (simp only: mmio_readb_fields mmio_readb_fifo q1 t1) simp
    show "xfers (mapped e) Idle (?evs @ rest) =
            map_option ((#) (v, fifo_seq e (fifo_pops s))) (xfers (mapped e) Idle rest)" for rest
      by (rule x)
  qed
qed

lemma zip_drop_step:
  assumes "i < n" "n \<le> length xs"
  shows "zip (drop i (take n xs)) (map f [q..<q + (n - i)]) =
           (xs ! i, f q) # zip (drop (Suc i) (take n xs)) (map f [Suc q..<Suc q + (n - Suc i)])"
proof -
  have "drop i (take n xs) = xs ! i # drop (Suc i) (take n xs)"
    using assms by (simp add: Cons_nth_drop_Suc [symmetric])
  moreover have "[q..<q + (n - i)] = q # [Suc q..<Suc q + (n - Suc i)]"
    using assms by (simp add: upt_conv_Cons Suc_diff_Suc)
  ultimately show ?thesis by simp
qed

lemma write_phase_ok:
  assumes base: "spictrl_base s = mapped e"
    and ready: "\<forall>n. \<exists>k. spsr_seq e (n + k) AND SPSR_RFEMPTY = 0"
    and bound: "writecnt \<le> length writearr"
  shows "\<exists>s' evs. write_phase e i writecnt writearr s = Some (Inr s') \<and>
           spictrl_base s' = mapped e \<and> mem s' = mem s \<and>
           fifo_pops s' = fifo_pops s + (writecnt - i) \<and>
           trace s' = trace s @ evs \<and>
           xfers (mapped e) Idle evs =
             Some (zip (drop i (take writecnt writearr))
                       (map (fifo_seq e) [fifo_pops s..<fifo_pops s + (writecnt - i)]))"
  using base
proof (induction n \<equiv> "writecnt - i" arbitrary: i s)
  case 0
  then have "write_phase e i writecnt writearr s = Some (Inr s)"
    by (subst write_phase.simps) simp
  with 0 show ?case by simp
next
  case (Suc n)
  then have lt: "i < writecnt" and n: "n = writecnt - Suc i" by simp_all
  have inb: "i < length writearr" using lt bound by simp
  obtain s1 evs where
    w: "wait_read_fifo e (mmio_writeb e (writearr ! i) (spictrl_base s + SPICTRL_FIFO) s) = Some s1"
    and b2: "spictrl_base (snd (mmio_readb e (spictrl_base s1 + SPICTRL_FIFO) s1)) = mapped e"
    and m2: "mem (snd (mmio_readb e (spictrl_base s1 + SPICTRL_FIFO) s1)) = mem s"
    and q2: "fifo_pops (snd (mmio_readb e (spictrl_base s1 + SPICTRL_FIFO) s1)) = Suc (fifo_pops s)"
    and t2: "trace (snd (mmio_readb e (spictrl_base s1 + SPICTRL_FIFO) s1)) = trace s @ evs"
    and x2: "\<And>rest. xfers (mapped e) Idle (evs @ rest) =
       map_option ((#) (writearr ! i, fifo_seq e (fifo_pops s))) (xfers (mapped e) Idle rest)"
    using exchange_step [OF Suc.prems ready, of "writearr ! i"] by metis
  let ?s2 = "snd (mmio_readb e (spictrl_base s1 + SPICTRL_FIFO) s1)"
  from Suc.hyps(1) [OF n b2] obtain s' evs' where
    r: "write_phase e (Suc i) writecnt writearr ?s2 = Some (Inr s')"
    and b': "spictrl_base s' = mapped e" and m': "mem s' = mem ?s2"
    and q': "fifo_pops s' = fifo_pops ?s2 + (writecnt - Suc i)"
    and t': "trace s' = trace ?s2 @ evs'"
    and x': "xfers (mapped e) Idle evs' =
             Some (zip (drop (Suc i) (take writecnt writearr))
                       (map (fifo_seq e) [fifo_pops ?s2..<fifo_pops ?s2 + (writecnt - Suc i)]))"
    by blast
  have A: "write_phase e i writecnt writearr s = Some (Inr s')"
    by (subst write_phase.simps) (simp add: lt inb w r)
  have B: "fifo_pops s' = fifo_pops s + (writecnt - i)"
    using q' q2 lt by simp
  have C: "trace s' = trace s @ (evs @ evs')"
    using t' t2 by simp
  have D: "xfers (mapped e) Idle (evs @ evs') =
             Some (zip (drop i (take writecnt writearr))
                       (map (fifo_seq e) [fifo_pops s..<fifo_pops s + (writecnt - i)]))"
    using x2 [of evs'] x' q2 zip_drop_step [OF lt bound, of "fifo_seq e" "fifo_pops s"] by simp
  have E: "mem s' = mem s"
    using m' m2 by simp
  show ?case
    using A B C D E b' by (intro exI [of _ s'] exI [of _ "evs @ evs'"] conjI)
qed

lemma read_result_step:
  assumes "i < n" "n \<le> length xs"
  shows "take (Suc i) (xs[i := f q]) @ map f [Suc q..<Suc q + (n - Suc i)] @ drop n (xs[i := f q])
           = take i xs @ map f [q..<q + (n - i)] @ drop n xs"
proof -
  have "take (Suc i) (xs[i := f q]) = take i xs @ [f q]"
    using assms by (simp add: take_Suc_conv_app_nth)
  moreover have "drop n (xs[i := f q]) = drop n xs"
    using assms by simp
  moreover have "[q..<q + (n - i)] = q # [Suc q..<Suc q + (n - Suc i)]"
    using assms by (simp add: upt_conv_Cons Suc_diff_Suc)
  ultimately show ?thesis by simp
qed

lemma read_phase_ok:
  assumes base: "spictrl_base s = mapped e"
    and ready: "\<forall>n. \<exists>k. spsr_seq e (n + k) AND SPSR_RFEMPTY = 0"
    and wbound: "readcnt \<le> length writearr"
    and rbound: "readcnt \<le> length readarr"
    and le: "i \<le> readcnt"
  shows "\<exists>s' evs. read_phase e i readcnt writearr readarr s =
             Some (Inr (take i readarr
                          @ map (fifo_seq e) [fifo_pops s..<fifo_pops s + (readcnt - i)]
                          @ drop readcnt readarr, s')) \<and>
           spictrl_base s' = mapped e \<and> mem s' = mem s \<and>
           fifo_pops s' = fifo_pops s + (readcnt - i) \<and>
           trace s' = trace s @ evs \<and>
           xfers (mapped e) Idle evs =
             Some (zip (drop i (take readcnt writearr))
                       (map (fifo_seq e) [fifo_pops s..<fifo_pops s + (readcnt - i)]))"
  using base rbound le
proof (induction n \<equiv> "readcnt - i" arbitrary: i s readarr)
  case 0
  then have i: "i = readcnt" by simp
  have "read_phase e i readcnt writearr readarr s = Some (Inr (readarr, s))"
    by (subst read_phase.simps) (simp add: i)
  with 0 i show ?case by simp
next
  case (Suc n)
  then have lt: "i < readcnt" and n: "n = readcnt - Suc i" by simp_all
  have inw: "i < length writearr" using lt wbound by simp
  have inr: "i < length readarr" using lt Suc.prems(2) by simp
  obtain s1 evs where
    w: "wait_read_fifo e (mmio_writeb e (writearr ! i) (spictrl_base s + SPICTRL_FIFO) s) = Some s1"
    and b2: "spictrl_base (snd (mmio_readb e (spictrl_base s1 + SPICTRL_FIFO) s1)) = mapped e"
    and m2: "mem (snd (mmio_readb e (spictrl_base s1 + SPICTRL_FIFO) s1)) = mem s"
    and q2: "fifo_pops (snd (mmio_readb e (spictrl_base s1 + SPICTRL_FIFO) s1)) = Suc (fifo_pops s)"
    and v2: "fst (mmio_readb e (spictrl_base s1 + SPICTRL_FIFO) s1) = fifo_seq e (fifo_pops s)"
    and t2: "trace (snd (mmio_readb e (spictrl_base s1 + SPICTRL_FIFO) s1)) = trace s @ evs"
    and x2: "\<And>rest. xfers (mapped e) Idle (evs @ rest) =
       map_option ((#) (writearr ! i, fifo_seq e (fifo_pops s))) (xfers (mapped e) Idle rest)"
    using exchange_step [OF Suc.prems(1) ready, of "writearr ! i"] by metis
  let ?s2 = "snd (mmio_readb e (spictrl_base s1 + SPICTRL_FIFO) s1)"
  let ?v = "fifo_seq e (fifo_pops s)"
  let ?ra = "readarr[i := ?v]"
  have rb': "readcnt \<le> length ?ra" using Suc.prems(2) by simp
  have le': "Suc i \<le> readcnt" using lt by simp
  from Suc.hyps(1) [OF n b2 rb' le'] obtain s' evs' where
    r: "read_phase e (Suc i) readcnt writearr ?ra ?s2 =
          Some (Inr (take (Suc i) ?ra
                       @ map (fifo_seq e) [fifo_pops ?s2..<fifo_pops ?s2 + (readcnt - Suc i)]
                       @ drop readcnt ?ra, s'))"
    and b': "spictrl_base s' = mapped e" and m': "mem s' = mem ?s2"
    and q': "fifo_pops s' = fifo_pops ?s2 + (readcnt - Suc i)"
    and t': "trace s' = trace ?s2 @ evs'"
    and x': "xfers (mapped e) Idle evs' =
             Some (zip (drop (Suc i) (take readcnt writearr))
                       (map (fifo_seq e) [fifo_pops ?s2..<fifo_pops ?s2 + (readcnt - Suc i)]))"
    by blast
  have res: "take (Suc i) ?ra
               @ map (fifo_seq e) [fifo_pops ?s2..<fifo_pops ?s2 + (readcnt - Suc i)]
               @ drop readcnt ?ra
             = take i readarr @ map (fifo_seq e) [fifo_pops s..<fifo_pops s + (readcnt - i)]
               @ drop readcnt readarr"
    unfolding q2 using lt Suc.prems(2) by (rule read_result_step)
  have A: "read_phase e i readcnt writearr readarr s =
             Some (Inr (take i readarr @ map (fifo_seq e) [fifo_pops s..<fifo_pops s + (readcnt - i)]
               @ drop readcnt readarr, s'))"
  proof -
    have "read_phase e i readcnt writearr readarr s =
            read_phase e (Suc i) readcnt writearr ?ra ?s2"
      by (subst read_phase.simps) (simp add: lt inw inr w case_prod_beta v2)
    then show ?thesis by (simp only: r res)
  qed
  have B: "fifo_pops s' = fifo_pops s + (readcnt - i)"
    using q' q2 lt by simp
  have C: "trace s' = trace s @ (evs @ evs')"
    using t' t2 by simp
  have D: "xfers (mapped e) Idle (evs @ evs') =
             Some (zip (drop i (take readcnt writearr))
                       (map (fifo_seq e) [fifo_pops s..<fifo_pops s + (readcnt - i)]))"
    using x2 [of evs'] x' q2 zip_drop_step [OF lt wbound, of "fifo_seq e" "fifo_pops s"] by simp
  have E: "mem s' = mem s"
    using m' m2 by simp
  show ?case
    using A B C D E b' by (intro exI [of _ s'] exI [of _ "evs @ evs'"] conjI)
qed

subsection \<open>Runs that stay inside the register block\<close>

lemma new_events_append: "trace s' = trace s @ evs \<Longrightarrow> new_events s s' = evs"
  by (simp add: new_events_def)

lemma block_runI:
  "spictrl_base s' = spictrl_base s \<Longrightarrow> trace s' = trace s @ evs \<Longrightarrow>
     list_all (in_block (spictrl_base s)) evs \<Longrightarrow> block_run s s'"
  by (simp add: block_run_def new_events_def)

lemma block_runD:
  assumes "block_run s s'"
  shows "spictrl_base s' = spictrl_base s" "trace s' = trace s @ new_events s s'"
    "list_all (in_block (spictrl_base s)) (new_events s s')"
  using assms by (simp_all add: block_run_def)

lemma block_run_refl [simp]: "block_run s s"
  by (rule block_runI [where evs = "[]"]) simp_all

lemma block_run_trans:
  assumes "block_run s t" "block_run t u"
  shows "block_run s u"
proof (rule block_runI)
  show "spictrl_base u = spictrl_base s"
    using assms by (simp add: block_runD(1))
  show "trace u = trace s @ (new_events s t @ new_events t u)"
    using block_runD(2) [OF assms(1)] block_runD(2) [OF assms(2)] by simp
  show "list_all (in_block (spictrl_base s)) (new_events s t @ new_events t u)"
    using block_runD(3) [OF assms(1)] block_runD(3) [OF assms(2)] block_runD(1) [OF assms(1)]
    by simp
qed

lemma block_run_emit:
  "access_addr ev = None \<Longrightarrow> block_run s (emit ev s)"
  by (rule block_runI [where evs = "[ev]"]) (simp_all add: in_block_def)

lemma block_run_readb:
  assumes "off \<in> {SPICTRL_SPCR, SPICTRL_SPSR, SPICTRL_FIFO, SPICTRL_SFCP, SPICTRL_SOFTCS}"
  shows "block_run s (snd (mmio_readb e (spictrl_base s + off) s))"
  using assms
  by (intro block_runI [where evs = "[MmioRead (spictrl_base s + off)
        (fst (mmio_readb e (spictrl_base s + off) s))]"]) (auto simp: in_block_def)

lemma block_run_writeb:
  assumes "off \<in> {SPICTRL_SPCR, SPICTRL_SPSR, SPICTRL_FIFO, SPICTRL_SFCP, SPICTRL_SOFTCS}"
  shows "block_run s (mmio_writeb e v (spictrl_base s + off) s)"
  using assms
  by (intro block_runI [where evs = "[MmioWrite v (spictrl_base s + off)]"])
     (auto simp: in_block_def)

lemma drain_read_fifo_run:
  assumes "drain_read_fifo e s = Some s'"
  shows "block_run s s' \<and> mem s' = mem s"
proof (rule drain_read_fifo.raw_induct
    [where P = "\<lambda>e s s'. block_run s s' \<and> mem s' = mem s" and e = e and s = s and y = s'])
  show "drain_read_fifo e s = Some s'" by fact
next
  fix drain :: "env \<Rightarrow> state \<Rightarrow> state option" and e s s'
  assume IH: "\<And>e s y. drain e s = Some y \<Longrightarrow> block_run s y \<and> mem y = mem s"
    and body: "(let (v, s1) = mmio_readb e (spictrl_base s + SPICTRL_SPSR) s
                in if v AND SPSR_RFEMPTY = 0
                   then drain e (snd (mmio_readb e (spictrl_base s1 + SPICTRL_FIFO) s1))
                   else Some s1) = Some s'"
  let ?s1 = "snd (mmio_readb e (spictrl_base s + SPICTRL_SPSR) s)"
  let ?s2 = "snd (mmio_readb e (spictrl_base ?s1 + SPICTRL_FIFO) ?s1)"
  have r1: "block_run s ?s1" by (rule block_run_readb) simp
  have r2: "block_run ?s1 ?s2" by (rule block_run_readb) simp
  show "block_run s s' \<and> mem s' = mem s"
  proof (cases "fst (mmio_readb e (spictrl_base s + SPICTRL_SPSR) s) AND SPSR_RFEMPTY = 0")
    case True
    with body have "drain e ?s2 = Some s'" by (simp add: case_prod_beta)
    then have rest: "block_run ?s2 s'" and m: "mem s' = mem ?s2" by (simp_all add: IH)
    have "block_run s ?s2" using r1 r2 by (rule block_run_trans)
    then have "block_run s s'" using rest by (rule block_run_trans)
    then show ?thesis using m by simp
  next
    case False
    with body have "s' = ?s1" by (simp add: case_prod_beta)
    then show ?thesis using r1 by simp
  qed
qed

lemma wait_read_fifo_run:
  assumes "wait_read_fifo e s = Some s'"
  shows "block_run s s' \<and> mem s' = mem s"
proof (rule wait_read_fifo.raw_induct
    [where P = "\<lambda>e s s'. block_run s s' \<and> mem s' = mem s" and e = e and s = s and y = s'])
  show "wait_read_fifo e s = Some s'" by fact
next
  fix wait :: "env \<Rightarrow> state \<Rightarrow> state option" and e s s'
  assume IH: "\<And>e s y. wait e s = Some y \<Longrightarrow> block_run s y \<and> mem y = mem s"
    and body: "(let (v, s1) = mmio_readb e (spictrl_base s + SPICTRL_SPSR) s
                in if v AND SPSR_RFEMPTY \<noteq> 0 then wait e s1 else Some s1) = Some s'"
  let ?s1 = "snd (mmio_readb e (spictrl_base s + SPICTRL_SPSR) s)"
  have r1: "block_run s ?s1" by (rule block_run_readb) simp
  show "block_run s s' \<and> mem s' = mem s"
  proof (cases "fst (mmio_readb e (spictrl_base s + SPICTRL_SPSR) s) AND SPSR_RFEMPTY \<noteq> 0")
    case True
    with body have "wait e ?s1 = Some s'" by (simp add: case_prod_beta)
    then have "block_run ?s1 s' \<and> mem s' = mem ?s1" by (rule IH)
    then show ?thesis
      using block_run_trans [OF r1] by simp
  next
    case False
    with body have "s' = ?s1" by (simp add: case_prod_beta)
    then show ?thesis using r1 by simp
  qed
qed

lemma write_phase_run:
  "write_phase e i writecnt writearr s = Some r \<Longrightarrow>
     block_run s (case r of Inl (f, t) \<Rightarrow> t | Inr t \<Rightarrow> t)"
proof (induction e i writecnt writearr s rule: write_phase.induct)
  case (1 e i writecnt writearr s)
  note eq = write_phase.simps [of e i writecnt writearr s]
  show ?case
  proof (cases "i < writecnt")
    case False
    with 1(2) eq have "r = Inr s" by simp
    then show ?thesis by simp
  next
    case lt: True
    show ?thesis
    proof (cases "i < length writearr")
      case False
      with lt 1(2) eq have "r = Inl (WritePhaseWritearr i, s)" by simp
      then show ?thesis by simp
    next
      case inb: True
      let ?sw = "mmio_writeb e (writearr ! i) (spictrl_base s + SPICTRL_FIFO) s"
      from lt inb 1(2) eq obtain s1 where w: "wait_read_fifo e ?sw = Some s1"
        by (cases "wait_read_fifo e ?sw") simp_all
      let ?s2 = "snd (mmio_readb e (spictrl_base s1 + SPICTRL_FIFO) s1)"
      from lt inb 1(2) eq w have r: "write_phase e (Suc i) writecnt writearr ?s2 = Some r"
        by simp
      have "block_run s ?sw" by (rule block_run_writeb) simp
      moreover have "block_run ?sw s1" using wait_read_fifo_run [OF w] by simp
      moreover have "block_run s1 ?s2" by (rule block_run_readb) simp
      moreover have "block_run ?s2 (case r of Inl (f, t) \<Rightarrow> t | Inr t \<Rightarrow> t)"
        using lt inb w r by (rule 1(1))
      ultimately show ?thesis
        using block_run_trans by blast
    qed
  qed
qed

lemma read_phase_run:
  "read_phase e i readcnt writearr readarr s = Some r \<Longrightarrow>
     block_run s (case r of Inl (f, t) \<Rightarrow> t | Inr (ra, t) \<Rightarrow> t)"
proof (induction e i readcnt writearr readarr s rule: read_phase.induct)
  case (1 e i readcnt writearr readarr s)
  note eq = read_phase.simps [of e i readcnt writearr readarr s]
  show ?case
  proof (cases "i < readcnt")
    case False
    with 1(2) eq have "r = Inr (readarr, s)" by simp
    then show ?thesis by simp
  next
    case lt: True
    show ?thesis
    proof (cases "i < length writearr")
      case False
      with lt 1(2) eq have "r = Inl (ReadPhaseWritearr i, s)" by simp
      then show ?thesis by simp
    next
      case inb: True
      let ?sw = "mmio_writeb e (writearr ! i) (spictrl_base s + SPICTRL_FIFO) s"
      from lt inb 1(2) eq obtain s1 where w: "wait_read_fifo e ?sw = Some s1"
        by (cases "wait_read_fifo e ?sw") simp_all
      let ?v = "fst (mmio_readb e (spictrl_base s1 + SPICTRL_FIFO) s1)"
      let ?s2 = "snd (mmio_readb e (spictrl_base s1 + SPICTRL_FIFO) s1)"
      have "block_run s ?sw" by (rule block_run_writeb) simp
      moreover have "block_run ?sw s1" using wait_read_fifo_run [OF w] by simp
      moreover have "block_run s1 ?s2" by (rule block_run_readb) simp
      ultimately have to2: "block_run s ?s2"
        using block_run_trans by blast
      show ?thesis
      proof (cases "i < length readarr")
        case False
        with lt inb 1(2) eq w have "r = Inl (ReadPhaseReadarr i, ?s2)"
          by (simp add: case_prod_beta)
        then show ?thesis using to2 by simp
      next
        case inr: True
        with lt inb 1(2) eq w
        have r: "read_phase e (Suc i) readcnt writearr (readarr[i := ?v]) ?s2 = Some r"
          by (simp add: case_prod_beta)
        have "block_run ?s2 (case r of Inl (f, t) \<Rightarrow> t | Inr (ra, t) \<Rightarrow> t)"
          by (rule 1(1) [OF lt inb w refl prod.collapse inr r])
        with to2 show ?thesis
          using block_run_trans by blast
      qed
    qed
  qed
qed

subsection \<open>Whole transactions\<close>

text \<open>The read phase runs off the end of the write buffer.\<close>

lemma read_phase_overrun:
  assumes base: "spictrl_base s = mapped e"
    and ready: "\<forall>n. \<exists>k. spsr_seq e (n + k) AND SPSR_RFEMPTY = 0"
    and short: "length writearr < readcnt"
    and rbound: "length writearr \<le> length readarr"
    and le: "i \<le> length writearr"
  shows "\<exists>s' evs. read_phase e i readcnt writearr readarr s =
                 Some (Inl (ReadPhaseWritearr (length writearr), s')) \<and>
           fifo_pops s' = fifo_pops s + (length writearr - i) \<and>
           trace s' = trace s @ evs \<and>
           xfers (mapped e) Idle evs =
             Some (zip (drop i writearr)
                       (map (fifo_seq e) [fifo_pops s..<fifo_pops s + (length writearr - i)]))"
  using base rbound le
proof (induction n \<equiv> "length writearr - i" arbitrary: i s readarr)
  case 0
  then have i: "i = length writearr" by simp
  have "read_phase e i readcnt writearr readarr s = Some (Inl (ReadPhaseWritearr i, s))"
    using short by (subst read_phase.simps) (simp add: i)
  then show ?case using i by simp
next
  case (Suc n)
  then have inw: "i < length writearr" and n: "n = length writearr - Suc i" by simp_all
  have lt: "i < readcnt" using inw short by simp
  have inr: "i < length readarr" using inw Suc.prems(2) by simp
  obtain s1 evs where
    w: "wait_read_fifo e (mmio_writeb e (writearr ! i) (spictrl_base s + SPICTRL_FIFO) s) = Some s1"
    and b2: "spictrl_base (snd (mmio_readb e (spictrl_base s1 + SPICTRL_FIFO) s1)) = mapped e"
    and q2: "fifo_pops (snd (mmio_readb e (spictrl_base s1 + SPICTRL_FIFO) s1)) = Suc (fifo_pops s)"
    and t2: "trace (snd (mmio_readb e (spictrl_base s1 + SPICTRL_FIFO) s1)) = trace s @ evs"
    and x2: "\<And>rest. xfers (mapped e) Idle (evs @ rest) =
       map_option ((#) (writearr ! i, fifo_seq e (fifo_pops s))) (xfers (mapped e) Idle rest)"
    using exchange_step [OF Suc.prems(1) ready, of "writearr ! i"] by metis
  let ?s2 = "snd (mmio_readb e (spictrl_base s1 + SPICTRL_FIFO) s1)"
  let ?ra = "readarr[i := fst (mmio_readb e (spictrl_base s1 + SPICTRL_FIFO) s1)]"
  have rb': "length writearr \<le> length ?ra" using Suc.prems(2) by simp
  have le': "Suc i \<le> length writearr" using inw by simp
  from Suc.hyps(1) [OF n b2 rb' le'] obtain s' evs' where
    r: "read_phase e (Suc i) readcnt writearr ?ra ?s2 =
          Some (Inl (ReadPhaseWritearr (length writearr), s'))"
    and q': "fifo_pops s' = fifo_pops ?s2 + (length writearr - Suc i)"
    and t': "trace s' = trace ?s2 @ evs'"
    and x': "xfers (mapped e) Idle evs' =
             Some (zip (drop (Suc i) writearr)
                (map (fifo_seq e) [fifo_pops ?s2..<fifo_pops ?s2 + (length writearr - Suc i)]))"
    by blast
  have A: "read_phase e i readcnt writearr readarr s =
          Some (Inl (ReadPhaseWritearr (length writearr), s'))"
    by (subst read_phase.simps) (simp add: lt inw inr w case_prod_beta r)
  have B: "fifo_pops s' = fifo_pops s + (length writearr - i)"
    using q' q2 inw by simp
  have C: "trace s' = trace s @ (evs @ evs')"
    using t' t2 by simp
  have D: "xfers (mapped e) Idle (evs @ evs') =
             Some (zip (drop i writearr)
                       (map (fifo_seq e) [fifo_pops s..<fifo_pops s + (length writearr - i)]))"
    using x2 [of evs'] x' q2
      zip_drop_step [OF inw order_refl, of "fifo_seq e" "fifo_pops s"] by simp
  show ?case
    using A B C D by (intro exI [of _ s'] exI [of _ "evs @ evs'"] conjI)
qed

lemma xfers_join:
  assumes "xfers b Idle evs = Some ps" "xfers b Idle evs' = Some ps'"
  shows "xfers b Idle (evs @ evs') = Some (ps @ ps')"
  using xfers_append [OF assms(1), of evs'] assms(2) by simp

text \<open>A transaction whose indices stay inside both buffers.\<close>

lemma send_command_ok:
  assumes base: "spictrl_base s = mapped e"
    and ready: "\<forall>n. \<exists>k. spsr_seq e (n + k) AND SPSR_RFEMPTY = 0"
    and wbound: "writecnt \<le> length writearr"
    and rwbound: "readcnt \<le> length writearr"
    and rbound: "readcnt \<le> length readarr"
  shows "\<exists>s' evs. loongson3_spi_send_command e writecnt readcnt writearr readarr s =
             Some (Inr (0, map (fifo_seq e)
                             [fifo_pops s + writecnt..<fifo_pops s + writecnt + readcnt]
                           @ drop readcnt readarr, s')) \<and>
           trace s' = trace s @ Pwarn (CmdCounts writecnt readcnt)
                        # MmioWrite SOFTCS_ASSERT (mapped e + SPICTRL_SOFTCS)
                        # evs @ [MmioWrite SOFTCS_DESSERT (mapped e + SPICTRL_SOFTCS)] \<and>
           xfers (mapped e) Idle evs =
             Some (zip (take writecnt writearr)
                       (map (fifo_seq e) [fifo_pops s..<fifo_pops s + writecnt])
                   @ zip (take readcnt writearr)
                       (map (fifo_seq e)
                          [fifo_pops s + writecnt..<fifo_pops s + writecnt + readcnt]))"
proof -
  let ?s0 = "emit (Pwarn (CmdCounts writecnt readcnt)) s"
  let ?s1 = "mmio_writeb e SOFTCS_ASSERT (spictrl_base s + SPICTRL_SOFTCS) ?s0"
  have b1: "spictrl_base ?s1 = mapped e" using base by simp
  have q1: "fifo_pops ?s1 = fifo_pops s" by simp
  have t1: "trace ?s1 = trace s @ [Pwarn (CmdCounts writecnt readcnt),
              MmioWrite SOFTCS_ASSERT (mapped e + SPICTRL_SOFTCS)]"
    using base by simp
  from write_phase_ok [OF b1 ready wbound, of 0] obtain s2 evw where
    w: "write_phase e 0 writecnt writearr ?s1 = Some (Inr s2)"
    and b2: "spictrl_base s2 = mapped e"
    and q2: "fifo_pops s2 = fifo_pops s + writecnt"
    and t2: "trace s2 = trace ?s1 @ evw"
    and x2: "xfers (mapped e) Idle evw =
               Some (zip (take writecnt writearr)
                         (map (fifo_seq e) [fifo_pops s..<fifo_pops s + writecnt]))"
    unfolding q1 by auto
  from read_phase_ok [OF b2 ready rwbound rbound, of 0] obtain s3 evr where
    r: "read_phase e 0 readcnt writearr readarr s2 =
          Some (Inr (map (fifo_seq e) [fifo_pops s2..<fifo_pops s2 + readcnt]
                       @ drop readcnt readarr, s3))"
    and b3: "spictrl_base s3 = mapped e"
    and t3: "trace s3 = trace s2 @ evr"
    and x3: "xfers (mapped e) Idle evr =
               Some (zip (take readcnt writearr)
                         (map (fifo_seq e) [fifo_pops s2..<fifo_pops s2 + readcnt]))"
    by auto
  let ?s4 = "mmio_writeb e SOFTCS_DESSERT (spictrl_base s3 + SPICTRL_SOFTCS) s3"
  have A: "loongson3_spi_send_command e writecnt readcnt writearr readarr s =
             Some (Inr (0, map (fifo_seq e)
                             [fifo_pops s + writecnt..<fifo_pops s + writecnt + readcnt]
                           @ drop readcnt readarr, ?s4))"
    unfolding loongson3_spi_send_command_def Let_def by (simp add: w r q2)
  have B: "trace ?s4 = trace s @ Pwarn (CmdCounts writecnt readcnt)
                        # MmioWrite SOFTCS_ASSERT (mapped e + SPICTRL_SOFTCS)
                        # (evw @ evr) @ [MmioWrite SOFTCS_DESSERT (mapped e + SPICTRL_SOFTCS)]"
    using t1 t2 t3 b3 by simp
  have C: "xfers (mapped e) Idle (evw @ evr) =
             Some (zip (take writecnt writearr)
                       (map (fifo_seq e) [fifo_pops s..<fifo_pops s + writecnt])
                   @ zip (take readcnt writearr)
                       (map (fifo_seq e)
                          [fifo_pops s + writecnt..<fifo_pops s + writecnt + readcnt]))"
    using xfers_join [OF x2 x3] unfolding q2 .
  show ?thesis
    using A B C by (intro exI [of _ ?s4] exI [of _ "evw @ evr"] conjI)
qed

text \<open>A transaction that reads more bytes than the write buffer holds.\<close>

lemma send_command_overrun:
  assumes base: "spictrl_base s = mapped e"
    and ready: "\<forall>n. \<exists>k. spsr_seq e (n + k) AND SPSR_RFEMPTY = 0"
    and wbound: "writecnt \<le> length writearr"
    and short: "length writearr < readcnt"
    and rbound: "length writearr \<le> length readarr"
  shows "\<exists>s'. loongson3_spi_send_command e writecnt readcnt writearr readarr s =
             Some (Inl (ReadPhaseWritearr (length writearr), s')) \<and>
           fifo_pops s' = fifo_pops s + writecnt + length writearr"
proof -
  let ?s0 = "emit (Pwarn (CmdCounts writecnt readcnt)) s"
  let ?s1 = "mmio_writeb e SOFTCS_ASSERT (spictrl_base s + SPICTRL_SOFTCS) ?s0"
  have b1: "spictrl_base ?s1 = mapped e" using base by simp
  have q1: "fifo_pops ?s1 = fifo_pops s" by simp
  from write_phase_ok [OF b1 ready wbound, of 0] obtain s2 where
    w: "write_phase e 0 writecnt writearr ?s1 = Some (Inr s2)"
    and b2: "spictrl_base s2 = mapped e"
    and q2: "fifo_pops s2 = fifo_pops s + writecnt"
    unfolding q1 by auto
  from read_phase_overrun [OF b2 ready short rbound, of 0] obtain s3 where
    r: "read_phase e 0 readcnt writearr readarr s2 =
          Some (Inl (ReadPhaseWritearr (length writearr), s3))"
    and q3: "fifo_pops s3 = fifo_pops s2 + length writearr"
    by auto
  have "loongson3_spi_send_command e writecnt readcnt writearr readarr s =
          Some (Inl (ReadPhaseWritearr (length writearr), s3))"
    unfolding loongson3_spi_send_command_def Let_def by (simp add: w r)
  then show ?thesis using q3 q2 by simp
qed


lemma send_command_run:
  assumes "loongson3_spi_send_command e writecnt readcnt writearr readarr s = Some r"
  shows "block_run s (case r of Inl (f, t) \<Rightarrow> t | Inr (rc, ra, t) \<Rightarrow> t)"
proof -
  let ?s0 = "emit (Pwarn (CmdCounts writecnt readcnt)) s"
  let ?s1 = "mmio_writeb e SOFTCS_ASSERT (spictrl_base s + SPICTRL_SOFTCS) ?s0"
  have r0: "block_run s ?s0" by (rule block_run_emit) simp
  have r1: "block_run ?s0 ?s1"
    using block_run_writeb [of SPICTRL_SOFTCS ?s0 e SOFTCS_ASSERT] by simp
  note to1 = block_run_trans [OF r0 r1]
  from assms obtain rw where w: "write_phase e 0 writecnt writearr ?s1 = Some rw"
    unfolding loongson3_spi_send_command_def Let_def
    by (cases "write_phase e 0 writecnt writearr ?s1") simp_all
  note rw = write_phase_run [OF w]
  show ?thesis
  proof (cases rw)
    case (Inl ft)
    with assms w have "r = Inl ft"
      unfolding loongson3_spi_send_command_def Let_def by simp
    with Inl rw to1 show ?thesis
      by (auto intro: block_run_trans split: prod.splits)
  next
    case (Inr s2)
    with rw have r2: "block_run ?s1 s2" by simp
    from assms w Inr obtain rr where r: "read_phase e 0 readcnt writearr readarr s2 = Some rr"
      unfolding loongson3_spi_send_command_def Let_def
      by (cases "read_phase e 0 readcnt writearr readarr s2") simp_all
    note rr = read_phase_run [OF r]
    show ?thesis
    proof (cases rr)
      case (Inl ft)
      with assms w Inr r have "r = Inl ft"
        unfolding loongson3_spi_send_command_def Let_def by simp
      with Inl rr to1 r2 show ?thesis
        by (auto intro: block_run_trans split: prod.splits)
    next
      case (Inr p)
      obtain ra s3 where p: "p = (ra, s3)" by (cases p)
      let ?s4 = "mmio_writeb e SOFTCS_DESSERT (spictrl_base s3 + SPICTRL_SOFTCS) s3"
      from assms w \<open>rw = Inr s2\<close> r Inr p have "r = Inr (0, ra, ?s4)"
        unfolding loongson3_spi_send_command_def Let_def by simp
      moreover have "block_run s3 ?s4" by (rule block_run_writeb) simp
      moreover have "block_run s2 s3" using rr Inr p by simp
      ultimately show ?thesis
        using to1 r2 by (auto intro: block_run_trans)
    qed
  qed
qed

subsection \<open>Bring-up and tear-down\<close>

lemma init_mapped_null:
  "spictrl_base s = 0 \<Longrightarrow> init_mapped e s = Some (1, emit (Perr FailedToMapBase) s)"
  by (simp add: init_mapped_def)

lemma init_mapped_refused:
  assumes base: "spictrl_base s = mapped e" and nz: "mapped e \<noteq> 0"
    and refused: "register_shutdown_rc e \<noteq> 0"
  obtains s3 pre where
    "init_mapped e s = Some (1, s3)"
    "spictrl_base s3 = mapped e"
    "mem s3 = mem s"
    "trace s3 = trace s @ pre"
    "list_all (in_block (mapped e)) pre"
proof -
  let ?r = "mmio_readb e (spictrl_base s + SPICTRL_SFCP) s"
  let ?s2 = "if fst ?r AND SFCP_MEMEN = 0 then emit (Pwarn ReadEngineNotEnabled) (snd ?r)
             else snd ?r"
  let ?s3 = "emit RegisterShutdown ?s2"
  let ?pre = "MmioRead (mapped e + SPICTRL_SFCP) (fst ?r)
              # (if fst ?r AND SFCP_MEMEN = 0 then [Pwarn ReadEngineNotEnabled] else [])
              @ [RegisterShutdown]"
  show ?thesis
  proof (rule that [of ?s3 ?pre])
    show "init_mapped e s = Some (1, ?s3)"
      using base nz refused
      by (simp add: init_mapped_def Let_def case_prod_beta register_shutdown_def)
    show "spictrl_base ?s3 = mapped e" using base by simp
    show "mem ?s3 = mem s" by simp
    show "trace ?s3 = trace s @ ?pre" using base by simp
    show "list_all (in_block (mapped e)) ?pre" by (simp add: in_block_def)
  qed
qed

lemma storage_read:
  assumes "off = SPICTRL_SPCR \<or> off = SPICTRL_SFCP \<or> off = SPICTRL_SOFTCS"
  shows "fst (mmio_readb e (mapped e + off) s) = mem s (mapped e + off)"
    "spsr_polls (snd (mmio_readb e (mapped e + off) s)) = spsr_polls s"
    "fifo_pops (snd (mmio_readb e (mapped e + off) s)) = fifo_pops s"
  using assms by (auto simp: mmio_readb_def offset_defs)

lemma storage_write:
  assumes "off = SPICTRL_SPCR \<or> off = SPICTRL_SFCP \<or> off = SPICTRL_SOFTCS"
  shows "mem (mmio_writeb e v (mapped e + off) s) = (mem s)(mapped e + off := v)"
  using assms by (auto simp: mmio_writeb_def offset_defs)

lemma init_mapped_steps:
  assumes base: "spictrl_base s = mapped e" and nz: "mapped e \<noteq> 0"
    and ok: "register_shutdown_rc e = 0"
  obtains s8 pre where
    "init_mapped e s =
       (case drain_read_fifo e s8 of
          None \<Rightarrow> None
        | Some s9 \<Rightarrow> Some (0, emit RegisterSpiMaster s9))"
    "spictrl_base s8 = mapped e"
    "spsr_polls s8 = spsr_polls s"
    "fifo_pops s8 = fifo_pops s"
    "trace s8 = trace s @ pre"
    "list_all (in_block (mapped e)) pre"
    "filter (is_read_at (mapped e + SPICTRL_FIFO)) pre = []"
    "mem s8 (mapped e + SPICTRL_SPCR) =
       mem s (mapped e + SPICTRL_SPCR) OR (SPCR_MSTR OR SPCR_SPE)"
    "mem s8 (mapped e + SPICTRL_SFCP) = mem s (mapped e + SPICTRL_SFCP) AND NOT SFCP_MEMEN"
    "mem s8 (mapped e + SPICTRL_SOFTCS) = SOFTCS_DESSERT"
proof -
  let ?b = "mapped e"
  let ?sfcp = "mem s (?b + SPICTRL_SFCP)"
  let ?spcr = "mem s (?b + SPICTRL_SPCR)"
  let ?s1 = "snd (mmio_readb e (?b + SPICTRL_SFCP) s)"
  let ?s2 = "if ?sfcp AND SFCP_MEMEN = 0 then emit (Pwarn ReadEngineNotEnabled) ?s1 else ?s1"
  let ?s3 = "emit RegisterShutdown ?s2"
  let ?s4 = "mmio_writeb e SOFTCS_DESSERT (?b + SPICTRL_SOFTCS) ?s3"
  let ?s5 = "snd (mmio_readb e (?b + SPICTRL_SPCR) ?s4)"
  let ?s6 = "mmio_writeb e (?spcr OR (SPCR_MSTR OR SPCR_SPE)) (?b + SPICTRL_SPCR) ?s5"
  let ?s7 = "snd (mmio_readb e (?b + SPICTRL_SFCP) ?s6)"
  let ?s8 = "mmio_writeb e (?sfcp AND NOT SFCP_MEMEN) (?b + SPICTRL_SFCP) ?s7"
  let ?pre = "MmioRead (?b + SPICTRL_SFCP) ?sfcp
              # (if ?sfcp AND SFCP_MEMEN = 0 then [Pwarn ReadEngineNotEnabled] else [])
              @ [RegisterShutdown,
                 MmioWrite SOFTCS_DESSERT (?b + SPICTRL_SOFTCS),
                 MmioRead (?b + SPICTRL_SPCR) ?spcr,
                 MmioWrite (?spcr OR (SPCR_MSTR OR SPCR_SPE)) (?b + SPICTRL_SPCR),
                 MmioRead (?b + SPICTRL_SFCP) ?sfcp,
                 MmioWrite (?sfcp AND NOT SFCP_MEMEN) (?b + SPICTRL_SFCP)]"
  have v1: "fst (mmio_readb e (?b + SPICTRL_SFCP) s) = ?sfcp"
    by (simp add: storage_read)
  have b2: "spictrl_base ?s2 = ?b" and m2: "mem ?s2 = mem s"
    using base by simp_all
  have m4: "mem ?s4 = (mem s)(?b + SPICTRL_SOFTCS := SOFTCS_DESSERT)"
    by (simp add: storage_write m2)
  have v5: "fst (mmio_readb e (?b + SPICTRL_SPCR) ?s4) = ?spcr"
    unfolding storage_read(1) [of SPICTRL_SPCR e ?s4, simplified] m4
    by (simp add: offset_defs)
  have m6: "mem ?s6 = (mem s)(?b + SPICTRL_SOFTCS := SOFTCS_DESSERT,
                              ?b + SPICTRL_SPCR := ?spcr OR (SPCR_MSTR OR SPCR_SPE))"
    by (simp add: storage_write m4)
  have v7: "fst (mmio_readb e (?b + SPICTRL_SFCP) ?s6) = ?sfcp"
    unfolding storage_read(1) [of SPICTRL_SFCP e ?s6, simplified] m6
    by (simp add: offset_defs)
  have m8: "mem ?s8 = (mem s)(?b + SPICTRL_SOFTCS := SOFTCS_DESSERT,
                              ?b + SPICTRL_SPCR := ?spcr OR (SPCR_MSTR OR SPCR_SPE),
                              ?b + SPICTRL_SFCP := ?sfcp AND NOT SFCP_MEMEN)"
    by (simp add: storage_write m6)
  show ?thesis
  proof (rule that [of ?s8 ?pre])
    show "init_mapped e s =
       (case drain_read_fifo e ?s8 of
          None \<Rightarrow> None
        | Some s9 \<Rightarrow> Some (0, emit RegisterSpiMaster s9))"
      unfolding init_mapped_def Let_def case_prod_beta register_shutdown_def fst_conv snd_conv
      using nz ok by (simp only: base v1 b2 mmio_writeb_fields mmio_readb_fields emit_fields
          v5 v7 not_True_eq_False if_False refl if_True)
    show "spictrl_base ?s8 = ?b" using base by simp
    show "spsr_polls ?s8 = spsr_polls s" by (simp add: storage_read)
    show "fifo_pops ?s8 = fifo_pops s" by (simp add: storage_read)
    show "trace ?s8 = trace s @ ?pre" by (simp add: storage_read v5 v7)
    show "list_all (in_block ?b) ?pre" by (simp add: in_block_def)
    show "filter (is_read_at (?b + SPICTRL_FIFO)) ?pre = []" by (simp add: offset_defs)
    show "mem ?s8 (?b + SPICTRL_SPCR) = ?spcr OR (SPCR_MSTR OR SPCR_SPE)"
      unfolding m8 by (simp add: offset_defs)
    show "mem ?s8 (?b + SPICTRL_SFCP) = ?sfcp AND NOT SFCP_MEMEN"
      unfolding m8 by (simp add: offset_defs)
    show "mem ?s8 (?b + SPICTRL_SOFTCS) = SOFTCS_DESSERT"
      unfolding m8 by (simp add: offset_defs)
  qed
qed

lemma drain_events_pops:
  "length (filter (is_read_at (mapped e + SPICTRL_FIFO)) (drain_events e p q K)) = K"
  by (induction K arbitrary: p q) (simp_all add: offset_defs)

lemma drain_events_in_block:
  "list_all (in_block (mapped e)) (drain_events e p q K)"
  by (induction K arbitrary: p q) (simp_all add: in_block_def)

lemma init_64c:
  assumes "cpu_param e = Some cpu" "cpu_is_loongson64c cpu \<noteq> 0"
  shows "loongson3_spi_init e s =
           init_mapped e (s\<lparr>spictrl_base := mapped e,
             trace := trace s @ [PhysMap ''Loongson64C SPICTRL'' LOONGSON64C_SPI_BASE
                                   LOONGSON3_SPI_REG_SIZE, Pwarn Note64c]\<rparr>)"
  using assms by (simp add: loongson3_spi_init_def rphysmap_def emit_def)

lemma init_64g:
  assumes "cpu_param e = Some cpu" "cpu_is_loongson64c cpu = 0" "cpu_is_loongson64g cpu \<noteq> 0"
  shows "loongson3_spi_init e s =
           init_mapped e (s\<lparr>spictrl_base := mapped e,
             trace := trace s @ [PhysMap ''Loongson64G SPICTRL'' LOONGSON64G_SPI_BASE
                                   LOONGSON3_SPI_REG_SIZE, Pwarn Note64g]\<rparr>)"
  using assms by (simp add: loongson3_spi_init_def rphysmap_def emit_def)

lemma init_no_cpu:
  "cpu_param e = None \<Longrightarrow> loongson3_spi_init e s = Some (1, emit (Perr NoCpuSpecified) s)"
  by (simp add: loongson3_spi_init_def)

lemma init_invalid_cpu:
  assumes "cpu_param e = Some cpu" "cpu_is_loongson64c cpu = 0" "cpu_is_loongson64g cpu = 0"
  shows "loongson3_spi_init e s = Some (1, emit (Perr InvalidCpuSpecified) s)"
  using assms by (simp add: loongson3_spi_init_def)

lemma cpu_is_loongson64c_iff:
  "cpu_is_loongson64c cpu \<noteq> 0 \<longleftrightarrow>
     cpu \<in> {''3b1500'', ''3a2000'', ''3b2000'', ''3a3000'', ''3b3000''}"
  by (simp add: cpu_is_loongson64c_def)

lemma cpu_is_loongson64g_iff:
  "cpu_is_loongson64g cpu \<noteq> 0 \<longleftrightarrow> cpu \<in> {''3a4000'', ''3b4000''}"
  by (simp add: cpu_is_loongson64g_def)

lemma init_mapped_success:
  assumes base: "spictrl_base s = mapped e" and nz: "mapped e \<noteq> 0"
    and ok: "register_shutdown_rc e = 0"
    and busy: "\<forall>j<K. spsr_seq e (spsr_polls s + j) AND SPSR_RFEMPTY = 0"
    and stop: "spsr_seq e (spsr_polls s + K) AND SPSR_RFEMPTY \<noteq> 0"
  shows "\<exists>s' pre. init_mapped e s = Some (0, s') \<and>
           spictrl_base s' = mapped e \<and> fifo_pops s' = fifo_pops s + K \<and>
           trace s' = trace s @ pre @ drain_events e (spsr_polls s) (fifo_pops s) K
                        @ [RegisterSpiMaster] \<and>
           list_all (in_block (mapped e)) pre \<and>
           filter (is_read_at (mapped e + SPICTRL_FIFO)) pre = []"
proof -
  from init_mapped_steps [OF base nz ok] obtain s8 pre where
    eq: "init_mapped e s =
       (case drain_read_fifo e s8 of
          None \<Rightarrow> None
        | Some s9 \<Rightarrow> Some (0, emit RegisterSpiMaster s9))"
    and b8: "spictrl_base s8 = mapped e"
    and p8: "spsr_polls s8 = spsr_polls s"
    and q8: "fifo_pops s8 = fifo_pops s"
    and t8: "trace s8 = trace s @ pre"
    and blk: "list_all (in_block (mapped e)) pre"
    and nopop: "filter (is_read_at (mapped e + SPICTRL_FIFO)) pre = []"
    by metis
  let ?s9 = "s8\<lparr>spsr_polls := spsr_polls s8 + Suc K, fifo_pops := fifo_pops s8 + K,
                 trace := trace s8 @ drain_events e (spsr_polls s8) (fifo_pops s8) K\<rparr>"
  have d: "drain_read_fifo e s8 = Some ?s9"
    by (rule drain_read_fifo_closed) (use b8 busy stop p8 in simp_all)
  have "init_mapped e s = Some (0, emit RegisterSpiMaster ?s9)"
    by (simp add: eq d)
  moreover have "spictrl_base (emit RegisterSpiMaster ?s9) = mapped e"
    using b8 by simp
  moreover have "fifo_pops (emit RegisterSpiMaster ?s9) = fifo_pops s + K"
    using q8 by simp
  moreover have "trace (emit RegisterSpiMaster ?s9) =
      trace s @ pre @ drain_events e (spsr_polls s) (fifo_pops s) K @ [RegisterSpiMaster]"
    using t8 p8 q8 by simp
  ultimately show ?thesis
    using blk nopop by blast
qed

lemma init_mapped_returns:
  assumes base: "spictrl_base s = mapped e"
    and stops: "\<exists>k. spsr_seq e (spsr_polls s + k) AND SPSR_RFEMPTY \<noteq> 0"
  shows "\<exists>rc s' evs. init_mapped e s = Some (rc, s') \<and> spictrl_base s' = mapped e \<and>
           trace s' = trace s @ evs"
proof (cases "mapped e = 0")
  case True
  then show ?thesis
    using base by (simp add: init_mapped_null)
next
  case nz: False
  show ?thesis
  proof (cases "register_shutdown_rc e = 0")
    case False
    from init_mapped_refused [OF base nz False] show ?thesis by metis
  next
    case True
    from stops obtain K where "spsr_seq e (spsr_polls s + K) AND SPSR_RFEMPTY \<noteq> 0"
      and "\<forall>j<K. \<not> spsr_seq e (spsr_polls s + j) AND SPSR_RFEMPTY \<noteq> 0"
      by (rule first_ready [where P = "\<lambda>m. spsr_seq e m AND SPSR_RFEMPTY \<noteq> 0"])
    then have "\<forall>j<K. spsr_seq e (spsr_polls s + j) AND SPSR_RFEMPTY = 0"
      and "spsr_seq e (spsr_polls s + K) AND SPSR_RFEMPTY \<noteq> 0" by simp_all
    from init_mapped_success [OF base nz True this] show ?thesis by blast
  qed
qed

lemma init_mapped_run:
  assumes base: "spictrl_base s = mapped e" and ret: "init_mapped e s = Some (rc, s')"
  shows "block_run s s'"
proof (cases "mapped e = 0")
  case True
  then have "s' = emit (Perr FailedToMapBase) s"
    using base ret by (simp add: init_mapped_null)
  then show ?thesis by (simp add: block_run_emit)
next
  case nz: False
  show ?thesis
  proof (cases "register_shutdown_rc e = 0")
    case False
    from init_mapped_refused [OF base nz False] obtain s3 pre where
      "init_mapped e s = Some (1, s3)" "spictrl_base s3 = mapped e"
      "trace s3 = trace s @ pre" "list_all (in_block (mapped e)) pre"
      by metis
    with ret base show ?thesis by (intro block_runI [where evs = pre]) simp_all
  next
    case True
    from init_mapped_steps [OF base nz True] obtain s8 pre where
      eq: "init_mapped e s =
         (case drain_read_fifo e s8 of
            None \<Rightarrow> None
          | Some s9 \<Rightarrow> Some (0, emit RegisterSpiMaster s9))"
      and b8: "spictrl_base s8 = mapped e"
      and t8: "trace s8 = trace s @ pre"
      and blk: "list_all (in_block (mapped e)) pre"
      by metis
    from ret eq obtain s9 where d: "drain_read_fifo e s8 = Some s9"
      and s': "s' = emit RegisterSpiMaster s9"
      by (cases "drain_read_fifo e s8") simp_all
    have "block_run s s8"
      using b8 t8 blk base by (intro block_runI [where evs = pre]) simp_all
    moreover have "block_run s8 s9" using drain_read_fifo_run [OF d] by simp
    moreover have "block_run s9 s'" unfolding s' by (simp add: block_run_emit)
    ultimately show ?thesis using block_run_trans by blast
  qed
qed

lemma init_success:
  assumes "loongson3_spi_init e s = Some (0, s')"
  shows "mapped e \<noteq> 0 \<and> spictrl_base s' = mapped e \<and>
         mem s' (mapped e + SPICTRL_SPCR) =
           mem s (mapped e + SPICTRL_SPCR) OR (SPCR_MSTR OR SPCR_SPE) \<and>
         mem s' (mapped e + SPICTRL_SFCP) = mem s (mapped e + SPICTRL_SFCP) AND NOT SFCP_MEMEN \<and>
         mem s' (mapped e + SPICTRL_SOFTCS) = SOFTCS_DESSERT"
proof -
  from assms obtain cpu where cpu: "cpu_param e = Some cpu"
    by (cases "cpu_param e") (simp_all add: init_no_cpu)
  have valid: "cpu_is_loongson64c cpu \<noteq> 0 \<or> cpu_is_loongson64g cpu \<noteq> 0"
    using assms cpu by (auto simp: init_invalid_cpu)
  then obtain t where im: "init_mapped e t = Some (0, s')" and bt: "spictrl_base t = mapped e"
    and mt: "mem t = mem s"
    using assms cpu init_64c [OF cpu, of s] init_64g [OF cpu, of s]
    by (cases "cpu_is_loongson64c cpu = 0") auto
  have nz: "mapped e \<noteq> 0"
  proof
    assume "mapped e = 0"
    then have "init_mapped e t = Some (1, emit (Perr FailedToMapBase) t)"
      using bt by (simp add: init_mapped_null)
    with im show False by simp
  qed
  have ok: "register_shutdown_rc e = 0"
  proof (rule ccontr)
    assume "register_shutdown_rc e \<noteq> 0"
    from init_mapped_refused [OF bt nz this] obtain s3 where "init_mapped e t = Some (1, s3)"
      by metis
    with im show False by simp
  qed
  from init_mapped_steps [OF bt nz ok] obtain s8 where
    eq: "init_mapped e t =
       (case drain_read_fifo e s8 of
          None \<Rightarrow> None
        | Some s9 \<Rightarrow> Some (0, emit RegisterSpiMaster s9))"
    and b8: "spictrl_base s8 = mapped e"
    and m8: "mem s8 (mapped e + SPICTRL_SPCR) =
       mem t (mapped e + SPICTRL_SPCR) OR (SPCR_MSTR OR SPCR_SPE)"
      "mem s8 (mapped e + SPICTRL_SFCP) = mem t (mapped e + SPICTRL_SFCP) AND NOT SFCP_MEMEN"
      "mem s8 (mapped e + SPICTRL_SOFTCS) = SOFTCS_DESSERT"
    by metis
  from im eq obtain s9 where d: "drain_read_fifo e s8 = Some s9"
    and s': "s' = emit RegisterSpiMaster s9"
    by (cases "drain_read_fifo e s8") simp_all
  from drain_read_fifo_run [OF d] have "spictrl_base s9 = spictrl_base s8" "mem s9 = mem s8"
    by (simp_all add: block_runD(1))
  then show ?thesis
    using nz b8 m8 mt s' by simp
qed

lemma init_drains:
  assumes cpu: "cpu_param e = Some cpu"
    and valid: "cpu_is_loongson64c cpu \<noteq> 0 \<or> cpu_is_loongson64g cpu \<noteq> 0"
    and nz: "mapped e \<noteq> 0"
    and ok: "register_shutdown_rc e = 0"
    and busy: "\<forall>j<K. spsr_seq e (spsr_polls s + j) AND SPSR_RFEMPTY = 0"
    and stop: "spsr_seq e (spsr_polls s + K) AND SPSR_RFEMPTY \<noteq> 0"
  shows "\<exists>s' evs. loongson3_spi_init e s = Some (0, s') \<and>
           trace s' = trace s @ evs @ [RegisterSpiMaster] \<and>
           length (filter (is_read_at (mapped e + SPICTRL_FIFO)) evs) = K \<and>
           fifo_pops s' = fifo_pops s + K"
proof -
  obtain t hd where init: "loongson3_spi_init e s = init_mapped e t"
    and bt: "spictrl_base t = mapped e" and pt: "spsr_polls t = spsr_polls s"
    and qt: "fifo_pops t = fifo_pops s" and tt: "trace t = trace s @ hd"
    and hd: "filter (is_read_at (mapped e + SPICTRL_FIFO)) hd = []"
  proof (cases "cpu_is_loongson64c cpu = 0")
    case True
    with valid have g: "cpu_is_loongson64g cpu \<noteq> 0" by simp
    let ?hd = "[PhysMap ''Loongson64G SPICTRL'' LOONGSON64G_SPI_BASE LOONGSON3_SPI_REG_SIZE,
                Pwarn Note64g]"
    show ?thesis
      by (rule that [of "s\<lparr>spictrl_base := mapped e, trace := trace s @ ?hd\<rparr>" ?hd])
         (simp_all add: init_64g [OF cpu True g])
  next
    case False
    let ?hd = "[PhysMap ''Loongson64C SPICTRL'' LOONGSON64C_SPI_BASE LOONGSON3_SPI_REG_SIZE,
                Pwarn Note64c]"
    show ?thesis
      by (rule that [of "s\<lparr>spictrl_base := mapped e, trace := trace s @ ?hd\<rparr>" ?hd])
         (simp_all add: init_64c [OF cpu False])
  qed
  from init_mapped_success [OF bt nz ok] busy stop pt obtain s' pre where
    r: "init_mapped e t = Some (0, s')"
    and q: "fifo_pops s' = fifo_pops t + K"
    and tr: "trace s' = trace t @ pre @ drain_events e (spsr_polls t) (fifo_pops t) K
                        @ [RegisterSpiMaster]"
    and nopop: "filter (is_read_at (mapped e + SPICTRL_FIFO)) pre = []"
    by (metis (no_types))
  let ?evs = "hd @ pre @ drain_events e (spsr_polls t) (fifo_pops t) K"
  have "loongson3_spi_init e s = Some (0, s')" using init r by simp
  moreover have "trace s' = trace s @ ?evs @ [RegisterSpiMaster]" using tr tt by simp
  moreover have "length (filter (is_read_at (mapped e + SPICTRL_FIFO)) ?evs) = K"
    using hd nopop by (simp add: drain_events_pops)
  moreover have "fifo_pops s' = fifo_pops s + K" using q qt by simp
  ultimately show ?thesis by blast
qed

lemma init_run:
  assumes "loongson3_spi_init e s = Some (rc, s')"
  shows "trace s' = trace s @ new_events s s' \<and>
         list_all (in_block (spictrl_base s')) (new_events s s')"
proof -
  have grow: "trace s' = trace s @ evs \<Longrightarrow> list_all (in_block (spictrl_base s')) evs \<Longrightarrow>
      ?thesis" for evs
    by (simp add: new_events_def)
  show ?thesis
  proof (cases "cpu_param e")
    case None
    with assms have "s' = emit (Perr NoCpuSpecified) s" by (simp add: init_no_cpu)
    then show ?thesis by (intro grow [of "[Perr NoCpuSpecified]"]) (simp_all add: in_block_def)
  next
    case (Some cpu)
    show ?thesis
    proof (cases "cpu_is_loongson64c cpu = 0 \<and> cpu_is_loongson64g cpu = 0")
      case True
      with assms Some have "s' = emit (Perr InvalidCpuSpecified) s"
        by (simp add: init_invalid_cpu)
      then show ?thesis
        by (intro grow [of "[Perr InvalidCpuSpecified]"]) (simp_all add: in_block_def)
    next
      case False
      then obtain t hd where init: "loongson3_spi_init e s = init_mapped e t"
        and bt: "spictrl_base t = mapped e" and tt: "trace t = trace s @ hd"
        and hd: "list_all (\<lambda>ev. access_addr ev = None) hd"
        using init_64c [OF Some, of s] init_64g [OF Some, of s]
        by (cases "cpu_is_loongson64c cpu = 0") (fastforce, fastforce)
      from assms init have r: "init_mapped e t = Some (rc, s')" by simp
      note run = init_mapped_run [OF bt r]
      have "list_all (in_block (spictrl_base s')) hd"
        using hd by (induction hd) (simp_all add: in_block_def)
      then show ?thesis
        using block_runD [OF run] tt by (intro grow [of "hd @ new_events t s'"]) simp_all
    qed
  qed
qed

lemma shutdown_run:
  "block_run s (snd (loongson3_spi_shutdown e s))"
proof (cases "spictrl_base s = 0")
  case False
  then show ?thesis by (simp add: loongson3_spi_shutdown_def)
next
  case True
  let ?s1 = "mmio_writeb e 0x0 (spictrl_base s + SPICTRL_SOFTCS) s"
  let ?s2 = "snd (mmio_readb e (spictrl_base ?s1 + SPICTRL_SFCP) ?s1)"
  let ?s3 = "mmio_writeb e (fst (mmio_readb e (spictrl_base ?s1 + SPICTRL_SFCP) ?s1) OR SFCP_MEMEN)
               (spictrl_base ?s2 + SPICTRL_SFCP) ?s2"
  have "snd (loongson3_spi_shutdown e s) = ?s3"
    using True by (simp add: loongson3_spi_shutdown_def Let_def case_prod_beta)
  moreover have "block_run s ?s1" by (rule block_run_writeb) simp
  moreover have "block_run ?s1 ?s2" by (rule block_run_readb) simp
  moreover have "block_run ?s2 ?s3" by (rule block_run_writeb) simp
  ultimately show ?thesis using block_run_trans by metis
qed

lemma demo_init:
  "\<exists>s' evs. loongson3_spi_init demo_env demo_boot = Some (0, s') \<and>
     trace s' = trace demo_boot @ evs @ [RegisterSpiMaster] \<and>
     length (filter (is_read_at (mapped demo_env + SPICTRL_FIFO)) evs) = 2 \<and>
     fifo_pops s' = fifo_pops demo_boot + 2"
proof (rule init_drains [where cpu = "''3a3000''"])
  show "cpu_param demo_env = Some ''3a3000''" by (simp add: demo_env_def)
  show "cpu_is_loongson64c ''3a3000'' \<noteq> 0 \<or> cpu_is_loongson64g ''3a3000'' \<noteq> 0"
    by (simp add: cpu_is_loongson64c_def)
  show "mapped demo_env \<noteq> 0" by (simp add: demo_env_def)
  show "register_shutdown_rc demo_env = 0" by (simp add: demo_env_def)
  show "\<forall>j<2. spsr_seq demo_env (spsr_polls demo_boot + j) AND SPSR_RFEMPTY = 0"
    by (simp add: demo_env_def demo_boot_def)
  show "spsr_seq demo_env (spsr_polls demo_boot + 2) AND SPSR_RFEMPTY \<noteq> 0"
    by (simp add: demo_env_def demo_boot_def bit_consts)
qed

section \<open>The claims\<close>

lemma demo_send_ok:
  "\<exists>ra s'. loongson3_spi_send_command demo_env 1 3 [0x9F, 0xA1, 0xA2, 0xA3] [0, 0, 0] demo_up
             = Some (Inr (0, ra, s'))"
proof -
  from send_command_ok [OF demo_up_base demo_ready, of 1 "[0x9F, 0xA1, 0xA2, 0xA3]" 3 "[0, 0, 0]"]
  show ?thesis by auto
qed

lemma demo_send_overrun:
  "\<exists>s'. loongson3_spi_send_command demo_env 1 3 [0x9F] [0, 0, 0] demo_up
          = Some (Inl (ReadPhaseWritearr 1, s'))"
proof -
  from send_command_overrun [OF demo_up_base demo_ready, of 1 "[0x9F]" 3 "[0, 0, 0]"]
  show ?thesis by auto
qed

lemma send_command_pushes:
  assumes base: "spictrl_base s = mapped e"
    and ready: "\<forall>n. \<exists>k. spsr_seq e (n + k) AND SPSR_RFEMPTY = 0"
    and wbound: "writecnt \<le> length writearr"
    and rwbound: "readcnt \<le> length writearr"
    and rbound: "readcnt \<le> length readarr"
  shows "read_phase_pushes e writecnt readcnt writearr readarr s = Some (take readcnt writearr)"
proof -
  let ?b = "mapped e"
  from send_command_ok [OF assms] obtain ra s' evs ps where
    r: "loongson3_spi_send_command e writecnt readcnt writearr readarr s = Some (Inr (0, ra, s'))"
    and t: "trace s' = trace s @ Pwarn (CmdCounts writecnt readcnt)
                        # MmioWrite SOFTCS_ASSERT (?b + SPICTRL_SOFTCS)
                        # evs @ [MmioWrite SOFTCS_DESSERT (?b + SPICTRL_SOFTCS)]"
    and x: "xfers ?b Idle evs = Some ps"
    and ps: "ps = zip (take writecnt writearr)
                       (map (fifo_seq e) [fifo_pops s..<fifo_pops s + writecnt])
                   @ zip (take readcnt writearr)
                       (map (fifo_seq e)
                          [fifo_pops s + writecnt..<fifo_pops s + writecnt + readcnt])"
    by blast
  have "fifo_pushes ?b evs = map fst ps"
    using xfers_pushes [OF x] by simp
  also have "\<dots> = take writecnt writearr @ take readcnt writearr"
    unfolding ps using wbound rwbound by (simp add: map_fst_zip)
  finally have pushes: "fifo_pushes ?b evs = take writecnt writearr @ take readcnt writearr" .
  have "new_events s s' = Pwarn (CmdCounts writecnt readcnt)
                        # MmioWrite SOFTCS_ASSERT (?b + SPICTRL_SOFTCS)
                        # evs @ [MmioWrite SOFTCS_DESSERT (?b + SPICTRL_SOFTCS)]"
    using t by (simp add: new_events_def)
  then have "fifo_pushes ?b (new_events s s') = take writecnt writearr @ take readcnt writearr"
    using pushes by (simp add: offset_defs)
  then show ?thesis
    using r base wbound by (simp add: read_phase_pushes_def)
qed

text \<open>
  Claim C1, as the code has it. For a transaction whose indices stay inside both buffers
  and whose waits unblock, the accesses between the two chip-select writes are
  \<open>writecnt + readcnt\<close> exchanges of the form push, poll until the read FIFO is
  non-empty, pop. Exchange \<open>i\<close> of the read phase pushes \<open>writearr ! i\<close>: the write buffer
  is read again from index 0, not continued at index \<open>writecnt\<close>. The byte that exchange
  pops is result byte \<open>i\<close>.
\<close>

theorem read_phase_pushes_from_index_zero:
  assumes "spictrl_base s = mapped e"
    and "\<forall>n. \<exists>k. spsr_seq e (n + k) AND SPSR_RFEMPTY = 0"
    and "writecnt \<le> length writearr"
    and "readcnt \<le> length writearr"
    and "readcnt \<le> length readarr"
  shows "\<exists>ra s' evs wr rd.
           loongson3_spi_send_command e writecnt readcnt writearr readarr s
             = Some (Inr (0, ra, s')) \<and>
           trace s' = trace s @ Pwarn (CmdCounts writecnt readcnt)
                        # MmioWrite SOFTCS_ASSERT (spictrl_base s + SPICTRL_SOFTCS)
                        # evs @ [MmioWrite SOFTCS_DESSERT (spictrl_base s + SPICTRL_SOFTCS)] \<and>
           xfers (spictrl_base s) Idle evs = Some (wr @ rd) \<and>
           length wr = writecnt \<and> length rd = readcnt \<and>
           (\<forall>i<readcnt. fst (rd ! i) = writearr ! i \<and> ra ! i = snd (rd ! i))"
proof -
  let ?q = "fifo_pops s"
  let ?wr = "zip (take writecnt writearr) (map (fifo_seq e) [?q..<?q + writecnt])"
  let ?in = "map (fifo_seq e) [?q + writecnt..<?q + writecnt + readcnt]"
  let ?rd = "zip (take readcnt writearr) ?in"
  from send_command_ok [OF assms] obtain s' evs where
    r: "loongson3_spi_send_command e writecnt readcnt writearr readarr s =
          Some (Inr (0, ?in @ drop readcnt readarr, s'))"
    and t: "trace s' = trace s @ Pwarn (CmdCounts writecnt readcnt)
                        # MmioWrite SOFTCS_ASSERT (mapped e + SPICTRL_SOFTCS)
                        # evs @ [MmioWrite SOFTCS_DESSERT (mapped e + SPICTRL_SOFTCS)]"
    and x: "xfers (mapped e) Idle evs = Some (?wr @ ?rd)"
    by blast
  have lw: "length ?wr = writecnt" and lr: "length ?rd = readcnt"
    using assms(3,4) by simp_all
  have each: "\<forall>i<readcnt. fst (?rd ! i) = writearr ! i \<and>
                (?in @ drop readcnt readarr) ! i = snd (?rd ! i)"
    using assms(4) by (simp add: nth_append)
  show ?thesis
    using r t x lw lr each unfolding assms(1) [symmetric]
    by (intro exI [of _ "?in @ drop readcnt readarr"] exI [of _ s'] exI [of _ evs]
        exI [of _ ?wr] exI [of _ ?rd] conjI)
qed

theorem read_phase_pushes_from_index_zero_witness:
  "\<exists>ra s' evs wr rd.
     loongson3_spi_send_command demo_env 1 3 [0x9F, 0xA1, 0xA2, 0xA3] [0, 0, 0] demo_up
       = Some (Inr (0, ra, s')) \<and>
     trace s' = trace demo_up @ Pwarn (CmdCounts 1 3)
                  # MmioWrite SOFTCS_ASSERT (spictrl_base demo_up + SPICTRL_SOFTCS)
                  # evs @ [MmioWrite SOFTCS_DESSERT (spictrl_base demo_up + SPICTRL_SOFTCS)] \<and>
     xfers (spictrl_base demo_up) Idle evs = Some (wr @ rd) \<and>
     length wr = 1 \<and> length rd = 3 \<and>
     (\<forall>i<3. fst (rd ! i) = [0x9F, 0xA1, 0xA2, 0xA3] ! i \<and> ra ! i = snd (rd ! i))"
  by (rule read_phase_pushes_from_index_zero [OF demo_up_base demo_ready]) simp_all

text \<open>
  The read phase as the specification words it would push the bytes at indices 1, 2, 3 of
  this four-byte buffer; the code pushes those at indices 0, 1, 2.
\<close>

theorem read_phase_pushes_counterexample:
  "read_phase_pushes demo_env 1 3 [0x9F, 0xA1, 0xA2, 0xA3] [0, 0, 0] demo_up
     = Some [0x9F, 0xA1, 0xA2] \<and>
   spec_read_phase_pushes 1 3 [0x9F, 0xA1, 0xA2, 0xA3] = [Some 0xA1, Some 0xA2, Some 0xA3]"
proof
  show "read_phase_pushes demo_env 1 3 [0x9F, 0xA1, 0xA2, 0xA3] [0, 0, 0] demo_up
          = Some [0x9F, 0xA1, 0xA2]"
    using send_command_pushes [OF demo_up_base demo_ready,
        of 1 "[0x9F, 0xA1, 0xA2, 0xA3]" 3 "[0, 0, 0]"]
    by simp
  show "spec_read_phase_pushes 1 3 [0x9F, 0xA1, 0xA2, 0xA3] = [Some 0xA1, Some 0xA2, Some 0xA3]"
    by (simp add: spec_read_phase_pushes_def upt_rec)
qed

text \<open>
  Claim C3. The read phase indexes the write buffer at 0, 1, ..., \<open>readcnt - 1\<close>: when
  these indices exist the bytes it pushes are the first \<open>readcnt\<close> bytes of the write
  buffer, and when \<open>readcnt\<close> exceeds the length of the write buffer the transaction
  stops with an out-of-range access to \<open>writearr\<close> at index \<open>length writearr\<close>, after
  \<open>length writearr\<close> exchanges of the read phase.
\<close>

theorem read_phase_overruns_writearr:
  assumes "spictrl_base s = mapped e"
    and "\<forall>n. \<exists>k. spsr_seq e (n + k) AND SPSR_RFEMPTY = 0"
    and "writecnt \<le> length writearr"
  shows "(readcnt \<le> length writearr \<and> readcnt \<le> length readarr \<longrightarrow>
            read_phase_pushes e writecnt readcnt writearr readarr s
              = Some (take readcnt writearr)) \<and>
         (length writearr < readcnt \<and> length writearr \<le> length readarr \<longrightarrow>
            (\<exists>s'. loongson3_spi_send_command e writecnt readcnt writearr readarr s
                     = Some (Inl (ReadPhaseWritearr (length writearr), s')) \<and>
                   fifo_pops s' = fifo_pops s + writecnt + length writearr))"
  using send_command_pushes [OF assms] send_command_overrun [OF assms] by blast

theorem read_phase_overruns_writearr_witness:
  "read_phase_pushes demo_env 1 1 [0x9F] [0] demo_up = Some [0x9F] \<and>
   (\<exists>s'. loongson3_spi_send_command demo_env 1 3 [0x9F] [0, 0, 0] demo_up
            = Some (Inl (ReadPhaseWritearr 1, s')) \<and>
          fifo_pops s' = fifo_pops demo_up + 1 + 1)"
proof -
  have w: "(1::nat) \<le> length [0x9F :: byte]" by simp
  note inst = read_phase_overruns_writearr [OF demo_up_base demo_ready w]
  from inst [of 1 "[0]"] have "read_phase_pushes demo_env 1 1 [0x9F] [0] demo_up = Some [0x9F]"
    by simp
  moreover from inst [of 3 "[0, 0, 0]"]
  have "\<exists>s'. loongson3_spi_send_command demo_env 1 3 [0x9F] [0, 0, 0] demo_up
            = Some (Inl (ReadPhaseWritearr 1, s')) \<and>
          fifo_pops s' = fifo_pops demo_up + 1 + 1"
    by simp
  ultimately show ?thesis by (rule conjI)
qed

lemma init_returns:
  assumes cpu: "cpu_param e = Some cpu"
    and stops: "\<exists>k. spsr_seq e (spsr_polls s + k) AND SPSR_RFEMPTY \<noteq> 0"
  shows "cpu_is_loongson64c cpu \<noteq> 0 \<Longrightarrow>
           \<exists>rc s' evs. loongson3_spi_init e s = Some (rc, s') \<and> spictrl_base s' = mapped e \<and>
             trace s' = trace s @ PhysMap ''Loongson64C SPICTRL'' LOONGSON64C_SPI_BASE
                                    LOONGSON3_SPI_REG_SIZE # evs"
    and "cpu_is_loongson64c cpu = 0 \<Longrightarrow> cpu_is_loongson64g cpu \<noteq> 0 \<Longrightarrow>
           \<exists>rc s' evs. loongson3_spi_init e s = Some (rc, s') \<and> spictrl_base s' = mapped e \<and>
             trace s' = trace s @ PhysMap ''Loongson64G SPICTRL'' LOONGSON64G_SPI_BASE
                                    LOONGSON3_SPI_REG_SIZE # evs"
proof -
  have run: "\<exists>rc s' evs. init_mapped e (s\<lparr>spictrl_base := mapped e, trace := trace s @ hd\<rparr>)
                 = Some (rc, s') \<and> spictrl_base s' = mapped e \<and>
               trace s' = trace s @ hd @ evs" for hd
    using init_mapped_returns [of "s\<lparr>spictrl_base := mapped e, trace := trace s @ hd\<rparr>" e]
      stops by simp
  show "cpu_is_loongson64c cpu \<noteq> 0 \<Longrightarrow>
           \<exists>rc s' evs. loongson3_spi_init e s = Some (rc, s') \<and> spictrl_base s' = mapped e \<and>
             trace s' = trace s @ PhysMap ''Loongson64C SPICTRL'' LOONGSON64C_SPI_BASE
                                    LOONGSON3_SPI_REG_SIZE # evs"
    using run [of "[PhysMap ''Loongson64C SPICTRL'' LOONGSON64C_SPI_BASE LOONGSON3_SPI_REG_SIZE,
                    Pwarn Note64c]"]
    by (simp add: init_64c [OF cpu]) blast
  show "cpu_is_loongson64c cpu = 0 \<Longrightarrow> cpu_is_loongson64g cpu \<noteq> 0 \<Longrightarrow>
           \<exists>rc s' evs. loongson3_spi_init e s = Some (rc, s') \<and> spictrl_base s' = mapped e \<and>
             trace s' = trace s @ PhysMap ''Loongson64G SPICTRL'' LOONGSON64G_SPI_BASE
                                    LOONGSON3_SPI_REG_SIZE # evs"
    using run [of "[PhysMap ''Loongson64G SPICTRL'' LOONGSON64G_SPI_BASE LOONGSON3_SPI_REG_SIZE,
                    Pwarn Note64g]"]
    by (simp add: init_64g [OF cpu]) blast
qed

text \<open>
  Claim C4. For the five 64C identifiers bring-up maps the block at 0x1fe00220, for the
  two 64G identifiers at 0x1fe001f0, in both cases over 0x10 bytes and as its first
  action; it returns once the drain loop sees the read FIFO empty. For any other string,
  the empty one included, and for an absent parameter, bring-up returns 1 and the only
  thing it does is print an error message: no register is read or written.
\<close>

theorem init_selects_base:
  "(cpu_param e = Some cpu \<and>
      cpu \<in> {''3b1500'', ''3a2000'', ''3b2000'', ''3a3000'', ''3b3000''} \<and>
      (\<exists>k. spsr_seq e (spsr_polls s + k) AND SPSR_RFEMPTY \<noteq> 0) \<longrightarrow>
      (\<exists>rc s' evs. loongson3_spi_init e s = Some (rc, s') \<and> spictrl_base s' = mapped e \<and>
         trace s' = trace s @ PhysMap ''Loongson64C SPICTRL'' 0x1fe00220 0x10 # evs)) \<and>
   (cpu_param e = Some cpu \<and> cpu \<in> {''3a4000'', ''3b4000''} \<and>
      (\<exists>k. spsr_seq e (spsr_polls s + k) AND SPSR_RFEMPTY \<noteq> 0) \<longrightarrow>
      (\<exists>rc s' evs. loongson3_spi_init e s = Some (rc, s') \<and> spictrl_base s' = mapped e \<and>
         trace s' = trace s @ PhysMap ''Loongson64G SPICTRL'' 0x1fe001f0 0x10 # evs)) \<and>
   (cpu_param e = None \<or>
      cpu_param e = Some cpu \<and>
      cpu \<notin> {''3b1500'', ''3a2000'', ''3b2000'', ''3a3000'', ''3b3000'', ''3a4000'', ''3b4000''} \<longrightarrow>
      (\<exists>m. loongson3_spi_init e s = Some (1, s\<lparr>trace := trace s @ [Perr m]\<rparr>) \<and>
           (m = NoCpuSpecified \<or> m = InvalidCpuSpecified)))"
proof (intro conjI impI)
  assume a: "cpu_param e = Some cpu \<and>
      cpu \<in> {''3b1500'', ''3a2000'', ''3b2000'', ''3a3000'', ''3b3000''} \<and>
      (\<exists>k. spsr_seq e (spsr_polls s + k) AND SPSR_RFEMPTY \<noteq> 0)"
  then have "cpu_is_loongson64c cpu \<noteq> 0"
    by (simp only: cpu_is_loongson64c_iff)
  with a init_returns(1) [of e cpu s]
  show "\<exists>rc s' evs. loongson3_spi_init e s = Some (rc, s') \<and> spictrl_base s' = mapped e \<and>
         trace s' = trace s @ PhysMap ''Loongson64C SPICTRL'' 0x1fe00220 0x10 # evs"
    by (simp add: LOONGSON64C_SPI_BASE_def LOONGSON3_SPI_REG_SIZE_def)
next
  assume a: "cpu_param e = Some cpu \<and> cpu \<in> {''3a4000'', ''3b4000''} \<and>
      (\<exists>k. spsr_seq e (spsr_polls s + k) AND SPSR_RFEMPTY \<noteq> 0)"
  then have g: "cpu_is_loongson64g cpu \<noteq> 0"
    by (simp only: cpu_is_loongson64g_iff)
  from a have c: "cpu_is_loongson64c cpu = 0"
    by (auto simp: cpu_is_loongson64c_def)
  from a g c init_returns(2) [of e cpu s]
  show "\<exists>rc s' evs. loongson3_spi_init e s = Some (rc, s') \<and> spictrl_base s' = mapped e \<and>
         trace s' = trace s @ PhysMap ''Loongson64G SPICTRL'' 0x1fe001f0 0x10 # evs"
    by (simp add: LOONGSON64G_SPI_BASE_def LOONGSON3_SPI_REG_SIZE_def)
next
  assume a: "cpu_param e = None \<or>
      cpu_param e = Some cpu \<and>
      cpu \<notin> {''3b1500'', ''3a2000'', ''3b2000'', ''3a3000'', ''3b3000'', ''3a4000'', ''3b4000''}"
  show "\<exists>m. loongson3_spi_init e s = Some (1, s\<lparr>trace := trace s @ [Perr m]\<rparr>) \<and>
           (m = NoCpuSpecified \<or> m = InvalidCpuSpecified)"
  proof (cases "cpu_param e")
    case None
    then show ?thesis
      by (intro exI [of _ NoCpuSpecified]) (simp add: init_no_cpu emit_def)
  next
    case (Some c)
    with a have "c = cpu" and out: "cpu \<notin> {''3b1500'', ''3a2000'', ''3b2000'', ''3a3000'',
        ''3b3000'', ''3a4000'', ''3b4000''}" by simp_all
    from out have "cpu_is_loongson64c cpu = 0" "cpu_is_loongson64g cpu = 0"
      using cpu_is_loongson64c_iff [of cpu] cpu_is_loongson64g_iff [of cpu] by auto
    with Some \<open>c = cpu\<close> show ?thesis
      by (intro exI [of _ InvalidCpuSpecified]) (simp add: init_invalid_cpu emit_def)
  qed
qed

theorem init_selects_base_witness:
  "(\<exists>rc s' evs. loongson3_spi_init demo_env demo_boot = Some (rc, s') \<and>
      spictrl_base s' = mapped demo_env \<and>
      trace s' = trace demo_boot @ PhysMap ''Loongson64C SPICTRL'' 0x1fe00220 0x10 # evs) \<and>
   (\<exists>rc s' evs. loongson3_spi_init (demo_env\<lparr>cpu_param := Some ''3b4000''\<rparr>) demo_boot
        = Some (rc, s') \<and>
      spictrl_base s' = mapped demo_env \<and>
      trace s' = trace demo_boot @ PhysMap ''Loongson64G SPICTRL'' 0x1fe001f0 0x10 # evs) \<and>
   (\<exists>m. loongson3_spi_init (demo_env\<lparr>cpu_param := Some ''''\<rparr>) demo_boot
        = Some (1, demo_boot\<lparr>trace := trace demo_boot @ [Perr m]\<rparr>) \<and>
      (m = NoCpuSpecified \<or> m = InvalidCpuSpecified)) \<and>
   (\<exists>m. loongson3_spi_init (demo_env\<lparr>cpu_param := None\<rparr>) demo_boot
        = Some (1, demo_boot\<lparr>trace := trace demo_boot @ [Perr m]\<rparr>) \<and>
      (m = NoCpuSpecified \<or> m = InvalidCpuSpecified))"
proof -
  have stops: "\<exists>k. spsr_seq demo_env (spsr_polls demo_boot + k) AND SPSR_RFEMPTY \<noteq> 0"
    by (rule exI [of _ 2]) (simp add: demo_env_def demo_boot_def bit_consts)
  have c: "cpu_param demo_env = Some ''3a3000''" by (simp add: demo_env_def)
  from init_selects_base [of demo_env "''3a3000''" demo_boot, THEN conjunct1] c stops
  have A: "\<exists>rc s' evs. loongson3_spi_init demo_env demo_boot = Some (rc, s') \<and>
      spictrl_base s' = mapped demo_env \<and>
      trace s' = trace demo_boot @ PhysMap ''Loongson64C SPICTRL'' 0x1fe00220 0x10 # evs"
    by simp
  from init_selects_base [of "demo_env\<lparr>cpu_param := Some ''3b4000''\<rparr>" "''3b4000''" demo_boot,
      THEN conjunct2, THEN conjunct1] stops
  have B: "\<exists>rc s' evs. loongson3_spi_init (demo_env\<lparr>cpu_param := Some ''3b4000''\<rparr>) demo_boot
        = Some (rc, s') \<and>
      spictrl_base s' = mapped demo_env \<and>
      trace s' = trace demo_boot @ PhysMap ''Loongson64G SPICTRL'' 0x1fe001f0 0x10 # evs"
    by simp
  from init_selects_base [of "demo_env\<lparr>cpu_param := Some ''''\<rparr>" "''''" demo_boot,
      THEN conjunct2, THEN conjunct2]
  have C: "\<exists>m. loongson3_spi_init (demo_env\<lparr>cpu_param := Some ''''\<rparr>) demo_boot
        = Some (1, demo_boot\<lparr>trace := trace demo_boot @ [Perr m]\<rparr>) \<and>
      (m = NoCpuSpecified \<or> m = InvalidCpuSpecified)"
    by simp
  from init_selects_base [of "demo_env\<lparr>cpu_param := None\<rparr>" "''''" demo_boot,
      THEN conjunct2, THEN conjunct2]
  have D: "\<exists>m. loongson3_spi_init (demo_env\<lparr>cpu_param := None\<rparr>) demo_boot
        = Some (1, demo_boot\<lparr>trace := trace demo_boot @ [Perr m]\<rparr>) \<and>
      (m = NoCpuSpecified \<or> m = InvalidCpuSpecified)"
    by simp
  from A B C D show ?thesis by (intro conjI)
qed

text \<open>
  Claim C5. After a successful bring-up the Control register has its master-mode and
  SPI-enable bits set, Read-Engine-Enable has its enable bit clear, and every other bit of
  the two registers is as it was before, whatever the registers held.
\<close>

theorem init_register_bits:
  assumes "loongson3_spi_init e s = Some (0, s')"
  shows "mem s' (spictrl_base s' + SPICTRL_SPCR) AND SPCR_MSTR = SPCR_MSTR \<and>
         mem s' (spictrl_base s' + SPICTRL_SPCR) AND SPCR_SPE = SPCR_SPE \<and>
         mem s' (spictrl_base s' + SPICTRL_SFCP) AND SFCP_MEMEN = 0 \<and>
         mem s' (spictrl_base s' + SPICTRL_SPCR) AND NOT (SPCR_MSTR OR SPCR_SPE)
           = mem s (spictrl_base s' + SPICTRL_SPCR) AND NOT (SPCR_MSTR OR SPCR_SPE) \<and>
         mem s' (spictrl_base s' + SPICTRL_SFCP) AND NOT SFCP_MEMEN
           = mem s (spictrl_base s' + SPICTRL_SFCP) AND NOT SFCP_MEMEN"
proof -
  from init_success [OF assms] have b: "spictrl_base s' = mapped e"
    and spcr: "mem s' (mapped e + SPICTRL_SPCR) =
           mem s (mapped e + SPICTRL_SPCR) OR (SPCR_MSTR OR SPCR_SPE)"
    and sfcp: "mem s' (mapped e + SPICTRL_SFCP) =
           mem s (mapped e + SPICTRL_SFCP) AND NOT SFCP_MEMEN"
    by simp_all
  show ?thesis
    unfolding b spcr sfcp by (intro conjI) (rule word_bits)+
qed

theorem init_register_bits_witness:
  "\<exists>s'. loongson3_spi_init demo_env demo_boot = Some (0, s') \<and>
     mem s' (spictrl_base s' + SPICTRL_SPCR) AND SPCR_MSTR = SPCR_MSTR \<and>
     mem s' (spictrl_base s' + SPICTRL_SPCR) AND SPCR_SPE = SPCR_SPE \<and>
     mem s' (spictrl_base s' + SPICTRL_SFCP) AND SFCP_MEMEN = 0 \<and>
     mem s' (spictrl_base s' + SPICTRL_SPCR) AND NOT (SPCR_MSTR OR SPCR_SPE)
       = mem demo_boot (spictrl_base s' + SPICTRL_SPCR) AND NOT (SPCR_MSTR OR SPCR_SPE) \<and>
     mem s' (spictrl_base s' + SPICTRL_SFCP) AND NOT SFCP_MEMEN
       = mem demo_boot (spictrl_base s' + SPICTRL_SFCP) AND NOT SFCP_MEMEN"
proof -
  from demo_init obtain s' where r: "loongson3_spi_init demo_env demo_boot = Some (0, s')"
    by blast
  from init_register_bits [OF r] r show ?thesis by blast
qed

text \<open>
  Claim C6. When Status reports the read FIFO non-empty at the first \<open>K\<close> polls of the
  drain loop and empty at the next one, bring-up succeeds, pops the FIFO register exactly
  \<open>K\<close> times, and registers the transport after that, as its last action. With
  \<open>K = 0\<close> it pops nothing.
\<close>

theorem init_drains_read_fifo:
  assumes "cpu_param e = Some cpu"
    and "cpu_is_loongson64c cpu \<noteq> 0 \<or> cpu_is_loongson64g cpu \<noteq> 0"
    and "mapped e \<noteq> 0"
    and "register_shutdown_rc e = 0"
    and "\<forall>j<K. spsr_seq e (spsr_polls s + j) AND SPSR_RFEMPTY = 0"
    and "spsr_seq e (spsr_polls s + K) AND SPSR_RFEMPTY \<noteq> 0"
  shows "\<exists>s' evs. loongson3_spi_init e s = Some (0, s') \<and>
           trace s' = trace s @ evs @ [RegisterSpiMaster] \<and>
           length (filter (is_read_at (spictrl_base s' + SPICTRL_FIFO)) evs) = K \<and>
           fifo_pops s' = fifo_pops s + K"
proof -
  from init_drains [OF assms] obtain s' evs where
    r: "loongson3_spi_init e s = Some (0, s')"
    and rest: "trace s' = trace s @ evs @ [RegisterSpiMaster]"
      "length (filter (is_read_at (mapped e + SPICTRL_FIFO)) evs) = K"
      "fifo_pops s' = fifo_pops s + K"
    by blast
  from init_success [OF r] have "spictrl_base s' = mapped e" by simp
  with r rest show ?thesis by auto
qed

theorem init_drains_read_fifo_witness:
  "(\<exists>s' evs. loongson3_spi_init demo_env demo_boot = Some (0, s') \<and>
      trace s' = trace demo_boot @ evs @ [RegisterSpiMaster] \<and>
      length (filter (is_read_at (spictrl_base s' + SPICTRL_FIFO)) evs) = 2 \<and>
      fifo_pops s' = fifo_pops demo_boot + 2) \<and>
   (\<exists>s' evs. loongson3_spi_init (demo_env\<lparr>spsr_seq := (\<lambda>n. 1)\<rparr>) demo_boot = Some (0, s') \<and>
      trace s' = trace demo_boot @ evs @ [RegisterSpiMaster] \<and>
      length (filter (is_read_at (spictrl_base s' + SPICTRL_FIFO)) evs) = 0 \<and>
      fifo_pops s' = fifo_pops demo_boot + 0)"
proof
  show "\<exists>s' evs. loongson3_spi_init demo_env demo_boot = Some (0, s') \<and>
      trace s' = trace demo_boot @ evs @ [RegisterSpiMaster] \<and>
      length (filter (is_read_at (spictrl_base s' + SPICTRL_FIFO)) evs) = 2 \<and>
      fifo_pops s' = fifo_pops demo_boot + 2"
    by (rule init_drains_read_fifo [where cpu = "''3a3000''"])
       (simp_all add: demo_env_def demo_boot_def cpu_is_loongson64c_def bit_consts)
  show "\<exists>s' evs. loongson3_spi_init (demo_env\<lparr>spsr_seq := (\<lambda>n. 1)\<rparr>) demo_boot = Some (0, s') \<and>
      trace s' = trace demo_boot @ evs @ [RegisterSpiMaster] \<and>
      length (filter (is_read_at (spictrl_base s' + SPICTRL_FIFO)) evs) = 0 \<and>
      fifo_pops s' = fifo_pops demo_boot + 0"
    by (rule init_drains_read_fifo [where cpu = "''3a3000''"])
       (simp_all add: demo_env_def demo_boot_def cpu_is_loongson64c_def bit_consts)
qed

text \<open>
  Claim C8. Tear-down returns 0 in every state, whether the handle is set or not and
  whatever the registers hold.
\<close>

theorem shutdown_returns_zero:
  "fst (loongson3_spi_shutdown e s) = 0"
  by (simp add: loongson3_spi_shutdown_def Let_def case_prod_beta)

text \<open>
  Claim C9. A transaction with no byte to write and none to read writes the assert
  encoding to Soft-Chip-Select and, as the very next access, the deassert encoding. The
  FIFO and Status registers are not touched and the result buffer comes back unchanged.
\<close>

theorem send_command_empty:
  "\<exists>s'. loongson3_spi_send_command e 0 0 [] readarr s = Some (Inr (0, readarr, s')) \<and>
     trace s' = trace s @ [Pwarn (CmdCounts 0 0),
                           MmioWrite SOFTCS_ASSERT (spictrl_base s + SPICTRL_SOFTCS),
                           MmioWrite SOFTCS_DESSERT (spictrl_base s + SPICTRL_SOFTCS)] \<and>
     fifo_pops s' = fifo_pops s \<and> spsr_polls s' = spsr_polls s"
  by (simp add: loongson3_spi_send_command_def Let_def write_phase.simps read_phase.simps)

text \<open>
  Claim C10. When bring-up returns 0 the handle is not null, and every register access
  of bring-up, of a transaction (completed or stopped by a fault) and of tear-down is
  addressed at the handle plus one of the offsets 0x0, 0x1, 0x2, 0x4, 0x5. A transaction
  and tear-down leave the handle as it is.
\<close>

theorem accesses_in_register_block:
  "(loongson3_spi_init e s = Some (rc, s') \<longrightarrow>
      (rc = 0 \<longrightarrow> spictrl_base s' \<noteq> 0) \<and>
      list_all (in_block (spictrl_base s')) (new_events s s')) \<and>
   (loongson3_spi_send_command e writecnt readcnt writearr readarr s = Some (Inr (r, ra, t)) \<longrightarrow>
      spictrl_base t = spictrl_base s \<and>
      list_all (in_block (spictrl_base s)) (new_events s t)) \<and>
   (loongson3_spi_send_command e writecnt readcnt writearr readarr s = Some (Inl (f, u)) \<longrightarrow>
      spictrl_base u = spictrl_base s \<and>
      list_all (in_block (spictrl_base s)) (new_events s u)) \<and>
   spictrl_base (snd (loongson3_spi_shutdown e s)) = spictrl_base s \<and>
   list_all (in_block (spictrl_base s)) (new_events s (snd (loongson3_spi_shutdown e s)))"
proof (intro conjI impI)
  assume r: "loongson3_spi_init e s = Some (rc, s')"
  show "list_all (in_block (spictrl_base s')) (new_events s s')"
    using init_run [OF r] by simp
  assume "rc = 0"
  with r show "spictrl_base s' \<noteq> 0"
    using init_success [of e s s'] by simp
next
  assume r: "loongson3_spi_send_command e writecnt readcnt writearr readarr s
               = Some (Inr (r, ra, t))"
  from send_command_run [OF r] have "block_run s t" by simp
  then show "spictrl_base t = spictrl_base s"
    and "list_all (in_block (spictrl_base s)) (new_events s t)"
    by (simp_all add: block_runD)
next
  assume r: "loongson3_spi_send_command e writecnt readcnt writearr readarr s
               = Some (Inl (f, u))"
  from send_command_run [OF r] have "block_run s u" by simp
  then show "spictrl_base u = spictrl_base s"
    and "list_all (in_block (spictrl_base s)) (new_events s u)"
    by (simp_all add: block_runD)
next
  show "spictrl_base (snd (loongson3_spi_shutdown e s)) = spictrl_base s"
    and "list_all (in_block (spictrl_base s)) (new_events s (snd (loongson3_spi_shutdown e s)))"
    using shutdown_run [of s e] by (simp_all add: block_runD)
qed

theorem accesses_in_register_block_witness:
  "(\<exists>s'. loongson3_spi_init demo_env demo_boot = Some (0, s') \<and>
      spictrl_base s' \<noteq> 0 \<and>
      list_all (in_block (spictrl_base s')) (new_events demo_boot s')) \<and>
   (\<exists>ra t. loongson3_spi_send_command demo_env 1 3 [0x9F, 0xA1, 0xA2, 0xA3] [0, 0, 0] demo_up
        = Some (Inr (0, ra, t)) \<and>
      spictrl_base t = spictrl_base demo_up \<and>
      list_all (in_block (spictrl_base demo_up)) (new_events demo_up t)) \<and>
   (\<exists>u. loongson3_spi_send_command demo_env 1 3 [0x9F] [0, 0, 0] demo_up
        = Some (Inl (ReadPhaseWritearr 1, u)) \<and>
      spictrl_base u = spictrl_base demo_up \<and>
      list_all (in_block (spictrl_base demo_up)) (new_events demo_up u))"
proof (intro conjI)
  from demo_init obtain s' where r: "loongson3_spi_init demo_env demo_boot = Some (0, s')"
    by blast
  from accesses_in_register_block [where e = demo_env and s = demo_boot and rc = 0
      and s' = s', THEN conjunct1] r
  show "\<exists>s'. loongson3_spi_init demo_env demo_boot = Some (0, s') \<and>
      spictrl_base s' \<noteq> 0 \<and>
      list_all (in_block (spictrl_base s')) (new_events demo_boot s')"
    by blast
next
  from demo_send_ok obtain ra t where
    r: "loongson3_spi_send_command demo_env 1 3 [0x9F, 0xA1, 0xA2, 0xA3] [0, 0, 0] demo_up
          = Some (Inr (0, ra, t))"
    by blast
  from accesses_in_register_block [where e = demo_env and s = demo_up and writecnt = 1
      and readcnt = 3 and writearr = "[0x9F, 0xA1, 0xA2, 0xA3]" and readarr = "[0, 0, 0]"
      and r = 0 and ra = ra and t = t, THEN conjunct2, THEN conjunct1] r
  show "\<exists>ra t. loongson3_spi_send_command demo_env 1 3 [0x9F, 0xA1, 0xA2, 0xA3] [0, 0, 0] demo_up
        = Some (Inr (0, ra, t)) \<and>
      spictrl_base t = spictrl_base demo_up \<and>
      list_all (in_block (spictrl_base demo_up)) (new_events demo_up t)"
    by blast
next
  from demo_send_overrun obtain u where
    r: "loongson3_spi_send_command demo_env 1 3 [0x9F] [0, 0, 0] demo_up
          = Some (Inl (ReadPhaseWritearr 1, u))"
    by blast
  from accesses_in_register_block [where e = demo_env and s = demo_up and writecnt = 1
      and readcnt = 3 and writearr = "[0x9F]" and readarr = "[0, 0, 0]"
      and f = "ReadPhaseWritearr 1" and u = u, THEN conjunct2, THEN conjunct2, THEN conjunct1] r
  show "\<exists>u. loongson3_spi_send_command demo_env 1 3 [0x9F] [0, 0, 0] demo_up
        = Some (Inl (ReadPhaseWritearr 1, u)) \<and>
      spictrl_base u = spictrl_base demo_up \<and>
      list_all (in_block (spictrl_base demo_up)) (new_events demo_up u)"
    by blast
qed

text \<open>
  Claim C2 at the state a successful bring-up leaves behind. The handle is set, so the
  guard \<^verbatim>\<open>!spictrl_base\<close> fails: tear-down returns 0 without a single register
  access, Soft-Chip-Select is not written and the enable bit of Read-Engine-Enable stays
  clear.
\<close>

theorem shutdown_skipped_after_init:
  "\<exists>s1. loongson3_spi_init demo_env demo_boot = Some (0, s1) \<and>
     spictrl_base s1 \<noteq> 0 \<and>
     loongson3_spi_shutdown demo_env s1 = (0, s1) \<and>
     mem s1 (spictrl_base s1 + SPICTRL_SFCP) AND SFCP_MEMEN = 0"
proof -
  from demo_init obtain s1 where r: "loongson3_spi_init demo_env demo_boot = Some (0, s1)"
    by blast
  from init_success [OF r] have nz: "spictrl_base s1 \<noteq> 0"
    and "mem s1 (spictrl_base s1 + SPICTRL_SFCP)
           = mem demo_boot (mapped demo_env + SPICTRL_SFCP) AND NOT SFCP_MEMEN"
    by simp_all
  then have bit: "mem s1 (spictrl_base s1 + SPICTRL_SFCP) AND SFCP_MEMEN = 0"
    by (simp add: word_bits)
  have "loongson3_spi_shutdown demo_env s1 = (0, s1)"
    using nz by (simp add: loongson3_spi_shutdown_def)
  with r nz bit show ?thesis by blast
qed






end
